theory Spec2Isabelle
  imports Main "HOL-Library.Word" "HOL-Library.Multiset"
begin

section \<open>viascan: the data model\<close>

text \<open>
  The program is a single Go file, \<^verbatim>\<open>viascan.go\<close>. Its state is the \<^verbatim>\<open>site\<close>
  struct, mutated in place by \<^verbatim>\<open>(*site).test\<close>; its effects are calls into the Go
  libraries (\<^verbatim>\<open>net\<close>, \<^verbatim>\<open>net/http\<close>, \<^verbatim>\<open>dns_resolver\<close>) and writes to stdout and
  to the log file. The structs are records here, the library calls are fields of an
  environment record, and every effect is an event appended to a trace.
\<close>

subsection \<open>tri\<close>

text \<open>
  \<^verbatim>\<open>type tri struct { ran bool; yesno bool }\<close>, with Go's zero value
  \<^verbatim>\<open>tri{false, false}\<close>.
\<close>

record tri =
  ran :: bool
  yesno :: bool

definition tri_zero :: tri where
  "tri_zero = \<lparr>ran = False, yesno = False\<rparr>"

text \<open>
  \<^verbatim>\<open>func (t tri) String() string\<close>: a \<^verbatim>\<open>switch\<close> with three cases tried in order,
  and the \<^verbatim>\<open>return "!"\<close> that follows the switch.
\<close>

definition tri_String :: "tri \<Rightarrow> string" where
  "tri_String t =
     (if \<not> ran t then ''-''
      else if yesno t then ''t''
      else if \<not> yesno t then ''f''
      else ''!'')"

text \<open>
  The three outcomes the specification calls TriState, and the reading of a \<^verbatim>\<open>tri\<close>
  as one of them.
\<close>

datatype TriState = NotRun | Succeeded | Failed

definition tristate :: "tri \<Rightarrow> TriState" where
  "tristate t = (if \<not> ran t then NotRun else if yesno t then Succeeded else Failed)"

subsection \<open>site\<close>

text \<open>
  \<^verbatim>\<open>type site struct\<close>: the Host header value and the origin of one input line, and
  the state of the tests performed on it. \<^verbatim>\<open>new_site\<close> is the composite literal
  \<^verbatim>\<open>&site{host: parts[0], origin: parts[1]}\<close> of \<^verbatim>\<open>main\<close>: every other field has
  Go's zero value.
\<close>

record site =
  host :: string
  origin :: string
  resolves :: tri
  noVia :: tri
  via :: tri
  noViaSize :: int
  viaSize :: int
  noViaEncoding :: string
  viaEncoding :: string
  noViaServer :: string
  viaServer :: string

definition new_site :: "string \<Rightarrow> string \<Rightarrow> site" where
  "new_site h orig =
     \<lparr>host = h, origin = orig,
      resolves = tri_zero, noVia = tri_zero, via = tri_zero,
      noViaSize = 0, viaSize = 0,
      noViaEncoding = [], viaEncoding = [],
      noViaServer = [], viaServer = []\<rparr>"

subsection \<open>The Go library values the program handles\<close>

text \<open>
  A Go \<^verbatim>\<open>error\<close> is its message; \<^verbatim>\<open>net.IP\<close> is a byte slice; \<^verbatim>\<open>http.Header\<close> is a
  \<^verbatim>\<open>map[string][]string\<close>. Of \<^verbatim>\<open>url.URL\<close>, \<^verbatim>\<open>http.Request\<close> and
  \<^verbatim>\<open>http.Response\<close> the fields the program or the request writer reads are kept.
  A call returning \<^verbatim>\<open>(v, err)\<close> is a pair whose second component is \<open>None\<close> for a
  \<^verbatim>\<open>nil\<close> error; a pointer that may be \<^verbatim>\<open>nil\<close> is an option.
\<close>

type_synonym error = string
type_synonym byte = "8 word"
type_synonym IP = "byte list"
type_synonym Conn = nat
type_synonym File = nat
type_synonym Header = "string \<rightharpoonup> string list"

record URL =
  URL_Scheme :: string
  URL_Host :: string
  URL_Path :: string

record Request =
  req_Method :: string
  req_URL :: URL
  req_Header :: Header
  req_Host :: string

record Response =
  resp_Header :: Header
  resp_Body :: "byte list option"

text \<open>
  \<^verbatim>\<open>Header.Set\<close> and \<^verbatim>\<open>Header.Get\<close>. Go canonicalises the key first
  (\<^verbatim>\<open>textproto.CanonicalMIMEHeaderKey\<close>); the five keys the program uses
  (\<^verbatim>\<open>Accept-Encoding\<close>, \<^verbatim>\<open>Host\<close>, \<^verbatim>\<open>Via\<close>, \<^verbatim>\<open>Content-Encoding\<close>, \<^verbatim>\<open>Server\<close>)
  are in canonical form already. \<^verbatim>\<open>Get\<close> returns the first value of the key, or the
  empty string.
\<close>

definition Header_Set :: "Header \<Rightarrow> string \<Rightarrow> string \<Rightarrow> Header" where
  "Header_Set h k v = h(k \<mapsto> [v])"

definition Header_Get :: "Header \<Rightarrow> string \<Rightarrow> string" where
  "Header_Get h k = (case h k of None \<Rightarrow> [] | Some [] \<Rightarrow> [] | Some (v # _) \<Rightarrow> v)"

subsection \<open>Effects\<close>

text \<open>
  Every call that leaves the process, and every line written, is an event. The log
  line of \<^verbatim>\<open>logf\<close> is kept as the origin it is prefixed with and the values that are
  formatted into it; the \<^verbatim>\<open>-dump\<close> output as the value that is printed.
\<close>

datatype logmsg =
    ErrorResolvingName error
  | HTTPRequestFailed Request error

datatype event =
    Lookup string
  | NetDial string string
  | HttpDo Request
  | CloseIdle
  | LogLine string logmsg
  | DumpRequest Request
  | DumpResponse "Response option"

text \<open>
  The environment: the library functions and the network, as the program calls them.
  A call that reaches the network is given the trace so far, so that its answer may
  change from one call to the next. \<^verbatim>\<open>client_Do\<close> is \<^verbatim>\<open>(*http.Client).Do\<close> on a
  client whose transport carries the program's \<^verbatim>\<open>Dial\<close> function: it is handed that
  function, and returns the events of the calls it made beside the response and the
  error. \<^verbatim>\<open>dump_flag\<close> is the global \<^verbatim>\<open>*dump\<close>.
\<close>

record env =
  ParseIP :: "string \<Rightarrow> IP option"
  SplitHostPort :: "string \<Rightarrow> string \<times> string \<times> error option"
  JoinHostPort :: "string \<Rightarrow> string \<Rightarrow> string"
  IP_String :: "IP \<Rightarrow> string"
  url_Parse :: "string \<Rightarrow> error + URL"
  LookupHost :: "event list \<Rightarrow> string \<Rightarrow> IP list \<times> error option"
  net_Dial :: "event list \<Rightarrow> string \<Rightarrow> string \<Rightarrow> Conn option \<times> error option"
  client_Do ::
    "(event list \<Rightarrow> string \<Rightarrow> string \<Rightarrow> (Conn option \<times> error option) \<times> event list)
      \<Rightarrow> event list \<Rightarrow> Request \<Rightarrow> (Response option \<times> error option) \<times> event list"
  dump_flag :: bool

text \<open>
  \<^verbatim>\<open>func (s *site) logf(f *os.File, format string, a ...interface{})\<close>: nothing is
  written when \<^verbatim>\<open>f\<close> is \<^verbatim>\<open>nil\<close>.
\<close>

definition logf :: "site \<Rightarrow> File option \<Rightarrow> logmsg \<Rightarrow> event list" where
  "logf s f m = (if f \<noteq> None then [LogLine (origin s) m] else [])"

definition dumpf :: "env \<Rightarrow> event \<Rightarrow> event list" where
  "dumpf env e = (if dump_flag env then [e] else [])"

section \<open>The paired prober: \<^verbatim>\<open>(*site).test\<close>\<close>

subsection \<open>The custom dialer (lines 130 to 150)\<close>

text \<open>
  The closure assigned to \<^verbatim>\<open>transport.Dial\<close>. It returns what \<^verbatim>\<open>net.Dial\<close> returns, or
  \<^verbatim>\<open>(nil, err)\<close>, and the events of its calls. \<^verbatim>\<open>ips[0]\<close> is read only after
  \<^verbatim>\<open>len(ips) == 0\<close> has been excluded.
\<close>

definition Dial ::
  "env \<Rightarrow> event list \<Rightarrow> string \<Rightarrow> string \<Rightarrow> (Conn option \<times> error option) \<times> event list" where
  "Dial env tr network address =
     (case SplitHostPort env address of
        (h, port, Some err) \<Rightarrow> ((None, Some err), [])
      | (h, port, None) \<Rightarrow>
          if ParseIP env h \<noteq> None
          then (net_Dial env tr network address, [NetDial network address])
          else
            (case LookupHost env tr h of
               (ips, Some err) \<Rightarrow> ((None, Some err), [Lookup h])
             | (ips, None) \<Rightarrow>
                 if length ips = 0
                 then ((None, Some (''Failed to get any IPs for '' @ address)), [Lookup h])
                 else
                   (let target = JoinHostPort env (IP_String env (ips ! 0)) port
                    in (net_Dial env (tr @ [Lookup h]) network target,
                        [Lookup h, NetDial network target]))))"

subsection \<open>The request (lines 153 to 156)\<close>

text \<open>
  \<^verbatim>\<open>http.NewRequest(method, urlStr, nil)\<close> of \<^verbatim>\<open>net/http\<close>: it parses the URL, returns
  \<^verbatim>\<open>(nil, err)\<close> when that fails, and otherwise a request with an empty header map
  whose \<^verbatim>\<open>Host\<close> field is the URL's host.
\<close>

definition NewRequest :: "env \<Rightarrow> string \<Rightarrow> string \<Rightarrow> Request option \<times> error option" where
  "NewRequest env method urlStr =
     (case url_Parse env urlStr of
        Inl err \<Rightarrow> (None, Some err)
      | Inr u \<Rightarrow>
          (Some \<lparr>req_Method = method, req_URL = u, req_Header = Map.empty, req_Host = URL_Host u\<rparr>,
           None))"

text \<open>
  How a run of \<^verbatim>\<open>test\<close> ends: it returns, or it panics (a \<^verbatim>\<open>nil\<close> pointer is
  dereferenced). Either way the site has been mutated in place up to that point.
\<close>

datatype outcome = Returned | Panicked

subsection \<open>The request with a Via header (lines 184 to 208)\<close>

text \<open>
  \<^verbatim>\<open>req.Header.Set("Via", "viascan 1.0")\<close> on the request of the first attempt: the
  same \<^verbatim>\<open>*http.Request\<close> is sent again.
\<close>

definition add_via :: "Request \<Rightarrow> Request" where
  "add_via req0 = req0\<lparr>req_Header := Header_Set (req_Header req0) ''Via'' ''viascan 1.0''\<rparr>"

definition test_via ::
  "env \<Rightarrow> File option \<Rightarrow> Request \<Rightarrow> site \<Rightarrow> event list \<Rightarrow> outcome \<times> site \<times> event list" where
  "test_via env l req0 s0 tr0 =
     (let req = add_via req0;
          s1 = s0\<lparr>via := (via s0)\<lparr>ran := True\<rparr>\<rparr>;
          tr1 = tr0 @ dumpf env (DumpRequest req) @ [HttpDo req];
          ((respVia, err), evs) = client_Do env (Dial env) tr1 req;
          tr2 = tr1 @ evs @ dumpf env (DumpResponse respVia)
      in case err of
           Some e \<Rightarrow> (Returned, s1, tr2 @ logf s1 l (HTTPRequestFailed req e))
         | None \<Rightarrow>
             (let s2 = s1\<lparr>via := (via s1)\<lparr>yesno := True\<rparr>\<rparr>;
                  sizeVia =
                    (case respVia of
                       None \<Rightarrow> 0
                     | Some r \<Rightarrow> (case resp_Body r of None \<Rightarrow> 0 | Some b \<Rightarrow> int (length b)));
                  s3 = s2\<lparr>viaSize := sizeVia\<rparr>
              in case respVia of
                   None \<Rightarrow> (Panicked, s3, tr2)
                 | Some r \<Rightarrow>
                     (Returned,
                      s3\<lparr>viaEncoding := Header_Get (resp_Header r) ''Content-Encoding'',
                         viaServer := Header_Get (resp_Header r) ''Server''\<rparr>,
                      tr2 @ [CloseIdle])))"

subsection \<open>The request without a Via header (lines 158 to 180)\<close>

definition test_noVia ::
  "env \<Rightarrow> File option \<Rightarrow> Request \<Rightarrow> site \<Rightarrow> event list \<Rightarrow> outcome \<times> site \<times> event list" where
  "test_noVia env l req s0 tr0 =
     (let s1 = s0\<lparr>noVia := (noVia s0)\<lparr>ran := True\<rparr>\<rparr>;
          tr1 = tr0 @ dumpf env (DumpRequest req) @ [HttpDo req];
          ((respNoVia, err), evs) = client_Do env (Dial env) tr1 req;
          tr2 = tr1 @ evs @ dumpf env (DumpResponse respNoVia)
      in case err of
           Some e \<Rightarrow> (Returned, s1, tr2 @ logf s1 l (HTTPRequestFailed req e))
         | None \<Rightarrow>
             (let s2 = s1\<lparr>noVia := (noVia s1)\<lparr>yesno := True\<rparr>\<rparr>;
                  sizeNoVia =
                    (case respNoVia of
                       None \<Rightarrow> 0
                     | Some r \<Rightarrow> (case resp_Body r of None \<Rightarrow> 0 | Some b \<Rightarrow> int (length b)));
                  s3 = s2\<lparr>noViaSize := sizeNoVia\<rparr>
              in case respNoVia of
                   None \<Rightarrow> (Panicked, s3, tr2)
                 | Some r \<Rightarrow>
                     test_via env l req
                       (s3\<lparr>noViaEncoding := Header_Get (resp_Header r) ''Content-Encoding'',
                           noViaServer := Header_Get (resp_Header r) ''Server''\<rparr>)
                       (tr2 @ [CloseIdle])))"

subsection \<open>Building the request (lines 115 to 156)\<close>

text \<open>
  The error of \<^verbatim>\<open>http.NewRequest\<close> is assigned to \<^verbatim>\<open>err\<close> and not looked at before
  \<^verbatim>\<open>req.Header.Set\<close> dereferences \<^verbatim>\<open>req\<close>. \<^verbatim>\<open>set_headers\<close> is the two
  \<^verbatim>\<open>req.Header.Set\<close> calls of lines 155 and 156.
\<close>

definition set_headers :: "Request \<Rightarrow> string \<Rightarrow> Request" where
  "set_headers req0 h =
     (let req1 = req0\<lparr>req_Header :=
                   Header_Set (req_Header req0) ''Accept-Encoding'' ''gzip,deflate''\<rparr>
      in req1\<lparr>req_Header := Header_Set (req_Header req1) ''Host'' h\<rparr>)"

definition test_http ::
  "env \<Rightarrow> File option \<Rightarrow> site \<Rightarrow> event list \<Rightarrow> outcome \<times> site \<times> event list" where
  "test_http env l s tr =
     (let name = origin s
      in case NewRequest env ''GET'' (''http://'' @ name) of
           (None, err) \<Rightarrow> (Panicked, s, tr)
         | (Some req0, err) \<Rightarrow> test_noVia env l (set_headers req0 (host s)) s tr)"

subsection \<open>Resolving the origin (lines 98 to 113), and the whole of \<^verbatim>\<open>test\<close>\<close>

definition test ::
  "env \<Rightarrow> File option \<Rightarrow> site \<Rightarrow> event list \<Rightarrow> outcome \<times> site \<times> event list" where
  "test env l s0 tr0 =
     (let s1 = s0\<lparr>resolves := (resolves s0)\<lparr>ran := True\<rparr>\<rparr>;
          name = origin s1
      in if ParseIP env name = None
         then
           (let (ips, err) = LookupHost env tr0 name;
                tr1 = tr0 @ [Lookup name]
            in case err of
                 Some e \<Rightarrow>
                   (Returned,
                    s1\<lparr>resolves := (resolves s1)\<lparr>yesno := False\<rparr>\<rparr>,
                    tr1 @ logf s1 l (ErrorResolvingName e))
               | None \<Rightarrow>
                   test_http env l (s1\<lparr>resolves := (resolves s1)\<lparr>yesno := True\<rparr>\<rparr>) tr1)
         else test_http env l (s1\<lparr>resolves := (resolves s1)\<lparr>yesno := True\<rparr>\<rparr>) tr0)"

text \<open>
  The specification's \<^verbatim>\<open>probe(target)\<close>: the worker's \<^verbatim>\<open>s.test(l)\<close> on the site that
  \<^verbatim>\<open>main\<close> builds from the two fields of an input line.
\<close>

definition probe ::
  "env \<Rightarrow> File option \<Rightarrow> string \<Rightarrow> string \<Rightarrow> event list \<Rightarrow> outcome \<times> site \<times> event list" where
  "probe env l hostHeader orig tr = test env l (new_site hostHeader orig) tr"

text \<open>
  The origin resolves, as lines 105 to 112 decide it: it is an IP literal, or the
  resolver returns no error for it.
\<close>

definition resolves_ok :: "env \<Rightarrow> event list \<Rightarrow> string \<Rightarrow> bool" where
  "resolves_ok env tr name =
     (if ParseIP env name = None then snd (LookupHost env tr name) = None else True)"

text \<open>
  \<^verbatim>\<open>client.Do\<close> keeps its contract when it never returns a \<^verbatim>\<open>nil\<close> response together
  with a \<^verbatim>\<open>nil\<close> error. Under that contract the only panic of \<^verbatim>\<open>test\<close> is the one of
  line 155: \<^verbatim>\<open>test\<close> returns whenever the origin does not resolve or the request
  can be built.
\<close>

definition Do_contract :: "env \<Rightarrow> bool" where
  "Do_contract env = (\<forall>dial tr req. fst (client_Do env dial tr req) \<noteq> (None, None))"

text \<open>Reading a trace: the requests handed to \<^verbatim>\<open>client.Do\<close>, in order.\<close>

fun http_attempts :: "event list \<Rightarrow> Request list" where
  "http_attempts [] = []"
| "http_attempts (HttpDo r # es) = r # http_attempts es"
| "http_attempts (e # es) = http_attempts es"

subsection \<open>What is written on the wire\<close>

text \<open>
  \<^verbatim>\<open>(*Request).Write\<close> of \<^verbatim>\<open>net/http\<close>, which the transport uses to send a request:
  the \<^verbatim>\<open>Host:\<close> line carries the request's \<^verbatim>\<open>Host\<close> field, or the URL's host when
  that field is empty; the entries of the \<^verbatim>\<open>Header\<close> map are written after it, except
  for the keys of \<^verbatim>\<open>reqWriteExcludeHeader\<close>, which are skipped.
\<close>

definition reqWriteExcludeHeader :: "string set" where
  "reqWriteExcludeHeader =
     {''Host'', ''User-Agent'', ''Content-Length'', ''Transfer-Encoding'', ''Trailer''}"

definition wire_Host :: "Request \<Rightarrow> string" where
  "wire_Host r = (if req_Host r = [] then URL_Host (req_URL r) else req_Host r)"

definition wire_Header :: "Request \<Rightarrow> Header" where
  "wire_Header r = (\<lambda>k. if k \<in> reqWriteExcludeHeader then None else req_Header r k)"

section \<open>Output: \<^verbatim>\<open>(*site).String\<close> and \<^verbatim>\<open>(*site).fields\<close>\<close>

text \<open>
  \<^verbatim>\<open>%d\<close> of \<^verbatim>\<open>fmt\<close>: the decimal digits of an \<^verbatim>\<open>int\<close>, with a minus sign when it is
  negative.
\<close>

definition digit :: "nat \<Rightarrow> char" where
  "digit n = ''0123456789'' ! n"

function Itoa_nat :: "nat \<Rightarrow> string" where
  "Itoa_nat n = (if n < 10 then [digit n] else Itoa_nat (n div 10) @ [digit (n mod 10)])"
  by pat_completeness auto
termination
  by (relation "measure (\<lambda>n. n)") auto

declare Itoa_nat.simps [simp del]

definition Itoa :: "int \<Rightarrow> string" where
  "Itoa i = (if i < 0 then CHR ''-'' # Itoa_nat (nat (- i)) else Itoa_nat (nat i))"

definition fields :: string where
  "fields =
     ''origin,host,resolves,noVia,via,noViaSize,viaSize,noViaEncoding,viaEncoding,noViaServer,viaServer''"

definition site_String :: "site \<Rightarrow> string" where
  "site_String s =
     origin s @ '','' @ host s @ '','' @
     tri_String (resolves s) @ '','' @ tri_String (noVia s) @ '','' @ tri_String (via s) @ '','' @
     Itoa (noViaSize s) @ '','' @ Itoa (viaSize s) @ '','' @
     noViaEncoding s @ '','' @ viaEncoding s @ '','' @
     noViaServer s @ '','' @ viaServer s"

section \<open>The driver, the workers and the writer\<close>

subsection \<open>One input line (lines 292 to 297)\<close>

text \<open>
  \<^verbatim>\<open>strings.Split(s, ",")\<close>, for a separator of one byte: the substrings between the
  separators, so one more than there are separators; \<^verbatim>\<open>[""]\<close> for the empty string.
\<close>

fun Split :: "string \<Rightarrow> char \<Rightarrow> string list" where
  "Split [] sep = [[]]"
| "Split (c # cs) sep =
     (if c = sep then [] # Split cs sep
      else (case Split cs sep of
              [] \<Rightarrow> [[c]]
            | part # parts \<Rightarrow> (c # part) # parts))"

text \<open>
  What \<^verbatim>\<open>main\<close> does with one line of input: it prints \<^verbatim>\<open>Bad line: <text>\<close>, or it
  sends \<^verbatim>\<open>&site{host: parts[0], origin: parts[1]}\<close> on the \<^verbatim>\<open>work\<close> channel.
\<close>

datatype line_action = Report string | Enqueue site

definition scan_line :: "string \<Rightarrow> line_action" where
  "scan_line text =
     (let parts = Split text (CHR '','')
      in if length parts \<noteq> 2 then Report text
         else Enqueue (new_site (parts ! 0) (parts ! 1)))"

text \<open>
  The loop of \<^verbatim>\<open>main\<close>, taken on its own, over the input lines: the values of
  \<^verbatim>\<open>scan.Text()\<close>, one for each \<^verbatim>\<open>scan.Scan()\<close> that returns true. (The scanner
  stops at the end of the input or at a read error; \<^verbatim>\<open>main\<close> reports the error after
  the pool has finished.)
\<close>

definition scan_lines :: "string list \<Rightarrow> line_action list" where
  "scan_lines texts = map scan_line texts"

fun queued :: "line_action list \<Rightarrow> site list" where
  "queued [] = []"
| "queued (Enqueue s # as) = s # queued as"
| "queued (Report text # as) = queued as"

fun reported :: "line_action list \<Rightarrow> string list" where
  "reported [] = []"
| "reported (Report text # as) = text # reported as"
| "reported (Enqueue s # as) = reported as"

subsection \<open>The goroutines\<close>

text \<open>
  Standard output, line by line: \<^verbatim>\<open>Bad line: <text>\<close> from \<^verbatim>\<open>main\<close>, the field names
  and the result lines (\<^verbatim>\<open>site_String\<close> of a site) from \<^verbatim>\<open>writer\<close>, and what \<^verbatim>\<open>test\<close>
  prints under \<^verbatim>\<open>-dump\<close>.
\<close>

datatype out_line = BadLineOut string | FieldsOut | ResultOut site | DumpOut event

fun results :: "out_line list \<Rightarrow> site list" where
  "results [] = []"
| "results (ResultOut s # ls) = s # results ls"
| "results (l # ls) = results ls"

fun dumps :: "event list \<Rightarrow> out_line list" where
  "dumps [] = []"
| "dumps (DumpRequest r # es) = DumpOut (DumpRequest r) # dumps es"
| "dumps (DumpResponse r # es) = DumpOut (DumpResponse r) # dumps es"
| "dumps (e # es) = dumps es"

text \<open>
  Where each goroutine stands. \<^verbatim>\<open>main\<close>: in the scan loop, blocked in
  \<^verbatim>\<open>work <- s\<close>, in \<^verbatim>\<open>wg.Wait()\<close> after \<^verbatim>\<open>close(work)\<close>, in \<^verbatim>\<open><-stop\<close> after
  \<^verbatim>\<open>close(result)\<close>, or returned. A worker: receiving from \<^verbatim>\<open>work\<close>, in
  \<^verbatim>\<open>s.test(l)\<close>, blocked in \<^verbatim>\<open>result <- s\<close>, or past \<^verbatim>\<open>wg.Done()\<close>. The writer:
  receiving from \<^verbatim>\<open>result\<close>, printing a site, or past \<^verbatim>\<open>close(stop)\<close>.
\<close>

datatype main_pc = Scanning | Offering site | Waiting | Stopping | Exited

datatype worker_pc = Receiving | Testing site | Delivering site | Done

datatype writer_pc = WReceiving | WPrinting site | WDone

record pool =
  input :: "string list"
  main_at :: main_pc
  workers :: "worker_pc list"
  writer_at :: writer_pc
  first :: bool
  stdout :: "out_line list"
  crashed :: bool

definition init_pool :: "nat \<Rightarrow> string list \<Rightarrow> pool" where
  "init_pool n texts =
     \<lparr>input = texts, main_at = Scanning, workers = replicate n Receiving,
      writer_at = WReceiving, first = True, stdout = [], crashed = False\<rparr>"

text \<open>
  One step of one goroutine. Both channels are unbuffered, so a send and its receive
  are one step. Each run of \<^verbatim>\<open>test\<close> is one step, on a trace of its own; a panic in
  it ends the process. \<^verbatim>\<open>fields\<close> is the \<^verbatim>\<open>-fields\<close> flag.
\<close>

inductive step :: "env \<Rightarrow> File option \<Rightarrow> bool \<Rightarrow> pool \<Rightarrow> pool \<Rightarrow> bool"
  for env :: env and l :: "File option" and flds :: bool where
  scan_bad:
    "\<not> crashed p \<Longrightarrow> main_at p = Scanning \<Longrightarrow> input p = ln # rest
      \<Longrightarrow> scan_line ln = Report ln'
      \<Longrightarrow> step env l flds p (p\<lparr>input := rest, stdout := stdout p @ [BadLineOut ln']\<rparr>)"
| scan_good:
    "\<not> crashed p \<Longrightarrow> main_at p = Scanning \<Longrightarrow> input p = ln # rest
      \<Longrightarrow> scan_line ln = Enqueue s
      \<Longrightarrow> step env l flds p (p\<lparr>input := rest, main_at := Offering s\<rparr>)"
| work_handoff:
    "\<not> crashed p \<Longrightarrow> main_at p = Offering s \<Longrightarrow> i < length (workers p)
      \<Longrightarrow> workers p ! i = Receiving
      \<Longrightarrow> step env l flds p (p\<lparr>main_at := Scanning, workers := (workers p)[i := Testing s]\<rparr>)"
| test_returns:
    "\<not> crashed p \<Longrightarrow> i < length (workers p) \<Longrightarrow> workers p ! i = Testing s
      \<Longrightarrow> test env l s [] = (Returned, s', tr)
      \<Longrightarrow> step env l flds p
            (p\<lparr>workers := (workers p)[i := Delivering s'], stdout := stdout p @ dumps tr\<rparr>)"
| test_panics:
    "\<not> crashed p \<Longrightarrow> i < length (workers p) \<Longrightarrow> workers p ! i = Testing s
      \<Longrightarrow> test env l s [] = (Panicked, s', tr)
      \<Longrightarrow> step env l flds p (p\<lparr>stdout := stdout p @ dumps tr, crashed := True\<rparr>)"
| result_handoff:
    "\<not> crashed p \<Longrightarrow> i < length (workers p) \<Longrightarrow> workers p ! i = Delivering s
      \<Longrightarrow> writer_at p = WReceiving
      \<Longrightarrow> step env l flds p (p\<lparr>workers := (workers p)[i := Receiving], writer_at := WPrinting s\<rparr>)"
| writer_prints:
    "\<not> crashed p \<Longrightarrow> writer_at p = WPrinting s
      \<Longrightarrow> step env l flds p
            (p\<lparr>writer_at := WReceiving,
               first := (if flds \<and> first p then False else first p),
               stdout := stdout p @ (if flds \<and> first p then [FieldsOut] else []) @ [ResultOut s]\<rparr>)"
| close_work:
    "\<not> crashed p \<Longrightarrow> main_at p = Scanning \<Longrightarrow> input p = []
      \<Longrightarrow> step env l flds p (p\<lparr>main_at := Waiting\<rparr>)"
| worker_done:
    "\<not> crashed p \<Longrightarrow> main_at p = Waiting \<Longrightarrow> i < length (workers p)
      \<Longrightarrow> workers p ! i = Receiving
      \<Longrightarrow> step env l flds p (p\<lparr>workers := (workers p)[i := Done]\<rparr>)"
| close_result:
    "\<not> crashed p \<Longrightarrow> main_at p = Waiting \<Longrightarrow> list_all (\<lambda>w. w = Done) (workers p)
      \<Longrightarrow> step env l flds p (p\<lparr>main_at := Stopping\<rparr>)"
| writer_done:
    "\<not> crashed p \<Longrightarrow> main_at p = Stopping \<Longrightarrow> writer_at p = WReceiving
      \<Longrightarrow> step env l flds p (p\<lparr>writer_at := WDone\<rparr>)"
| main_returns:
    "\<not> crashed p \<Longrightarrow> main_at p = Stopping \<Longrightarrow> writer_at p = WDone
      \<Longrightarrow> step env l flds p (p\<lparr>main_at := Exited\<rparr>)"

code_pred step .

text \<open>
  The states a run of the program can be in, started with \<open>n\<close> workers on an input.
  (\<^verbatim>\<open>main\<close> starts no goroutine when the \<^verbatim>\<open>-workers\<close> flag is below 1.)
\<close>

definition reachable :: "env \<Rightarrow> File option \<Rightarrow> bool \<Rightarrow> nat \<Rightarrow> string list \<Rightarrow> pool \<Rightarrow> bool" where
  "reachable env l flds n texts p = (step env l flds)\<^sup>*\<^sup>* (init_pool n texts) p"

subsection \<open>What a state of the pool still owes\<close>

text \<open>
  The site a run of \<^verbatim>\<open>test\<close> in a worker leaves behind, and whether the run panics.
\<close>

definition tested :: "env \<Rightarrow> File option \<Rightarrow> site \<Rightarrow> site" where
  "tested env l s = fst (snd (test env l s []))"

definition panics :: "env \<Rightarrow> File option \<Rightarrow> site \<Rightarrow> bool" where
  "panics env l s = (fst (test env l s []) = Panicked)"

text \<open>The results still to come from a goroutine, given where it stands.\<close>

fun main_holds :: "env \<Rightarrow> File option \<Rightarrow> main_pc \<Rightarrow> site multiset" where
  "main_holds env l (Offering s) = {#tested env l s#}"
| "main_holds env l pc = {#}"

fun worker_holds :: "env \<Rightarrow> File option \<Rightarrow> worker_pc \<Rightarrow> site multiset" where
  "worker_holds env l (Testing s) = {#tested env l s#}"
| "worker_holds env l (Delivering s) = {#s#}"
| "worker_holds env l pc = {#}"

fun writer_holds :: "writer_pc \<Rightarrow> site multiset" where
  "writer_holds (WPrinting s) = {#s#}"
| "writer_holds pc = {#}"

definition in_flight :: "env \<Rightarrow> File option \<Rightarrow> pool \<Rightarrow> site multiset" where
  "in_flight env l p =
     mset (map (tested env l) (queued (scan_lines (input p))))
     + main_holds env l (main_at p)
     + sum_list (map (worker_holds env l) (workers p))
     + writer_holds (writer_at p)
     + mset (results (stdout p))"

text \<open>What holds of the other goroutines once \<^verbatim>\<open>main\<close> is past a point.\<close>

definition past_scan :: "pool \<Rightarrow> bool" where
  "past_scan p = (main_at p = Waiting \<or> main_at p = Stopping \<or> main_at p = Exited)"

definition past_wait :: "pool \<Rightarrow> bool" where
  "past_wait p = (main_at p = Stopping \<or> main_at p = Exited)"

definition ordered :: "pool \<Rightarrow> bool" where
  "ordered p =
     ((if past_scan p then input p = [] else True)
      \<and> (if past_wait p then list_all (\<lambda>w. w = Done) (workers p) else True)
      \<and> (if main_at p = Exited then writer_at p = WDone else True)
      \<and> (if writer_at p = WDone then past_wait p else True)
      \<and> (if list_ex (\<lambda>w. w = Done) (workers p) then past_scan p else True))"

text \<open>
  A bound on the steps a state has left: five for a line of input (scanned, handed to
  a worker, tested, handed to the writer, printed), and what each goroutine has left
  from where it stands.
\<close>

fun main_fuel :: "main_pc \<Rightarrow> nat" where
  "main_fuel Exited = 0"
| "main_fuel Stopping = 1"
| "main_fuel Waiting = 2"
| "main_fuel Scanning = 3"
| "main_fuel (Offering s) = 7"

fun worker_fuel :: "worker_pc \<Rightarrow> nat" where
  "worker_fuel Done = 0"
| "worker_fuel Receiving = 1"
| "worker_fuel (Delivering s) = 3"
| "worker_fuel (Testing s) = 4"

fun writer_fuel :: "writer_pc \<Rightarrow> nat" where
  "writer_fuel WDone = 0"
| "writer_fuel WReceiving = 1"
| "writer_fuel (WPrinting s) = 2"

definition fuel :: "pool \<Rightarrow> nat" where
  "fuel p =
     5 * length (input p) + main_fuel (main_at p) + sum_list (map worker_fuel (workers p))
     + writer_fuel (writer_at p) + (if crashed p then 0 else 1)"

text \<open>No site in the pool, or still to be read, is one on which \<^verbatim>\<open>test\<close> panics.\<close>

fun worker_safe :: "env \<Rightarrow> File option \<Rightarrow> worker_pc \<Rightarrow> bool" where
  "worker_safe env l (Testing s) = (\<not> panics env l s)"
| "worker_safe env l pc = True"

fun main_safe :: "env \<Rightarrow> File option \<Rightarrow> main_pc \<Rightarrow> bool" where
  "main_safe env l (Offering s) = (\<not> panics env l s)"
| "main_safe env l pc = True"

definition all_safe :: "env \<Rightarrow> File option \<Rightarrow> pool \<Rightarrow> bool" where
  "all_safe env l p =
     (list_all (\<lambda>s. \<not> panics env l s) (queued (scan_lines (input p)))
      \<and> main_safe env l (main_at p)
      \<and> list_all (worker_safe env l) (workers p)
      \<and> \<not> crashed p)"

text \<open>
  Every site in the pool, or still to be read, is one on which \<^verbatim>\<open>test\<close> panics, and
  nothing has reached the writer.
\<close>

fun worker_stuck :: "env \<Rightarrow> File option \<Rightarrow> worker_pc \<Rightarrow> bool" where
  "worker_stuck env l (Testing s) = panics env l s"
| "worker_stuck env l (Delivering s) = False"
| "worker_stuck env l pc = True"

fun main_stuck :: "env \<Rightarrow> File option \<Rightarrow> main_pc \<Rightarrow> bool" where
  "main_stuck env l (Offering s) = panics env l s"
| "main_stuck env l pc = True"

fun writer_idle :: "writer_pc \<Rightarrow> bool" where
  "writer_idle (WPrinting s) = False"
| "writer_idle pc = True"

definition all_stuck :: "env \<Rightarrow> File option \<Rightarrow> pool \<Rightarrow> bool" where
  "all_stuck env l p =
     (list_all (panics env l) (queued (scan_lines (input p)))
      \<and> main_stuck env l (main_at p)
      \<and> list_all (worker_stuck env l) (workers p)
      \<and> writer_idle (writer_at p)
      \<and> results (stdout p) = [])"

text \<open>
  The state after \<^verbatim>\<open>main\<close> has read a single line with two fields, the first of
  \<open>n + 1\<close> workers has taken its site, and \<^verbatim>\<open>test\<close> has panicked on it.
\<close>

definition crash_pool :: "nat \<Rightarrow> site \<Rightarrow> pool" where
  "crash_pool n s =
     \<lparr>input = [], main_at = Scanning, workers = (replicate (Suc n) Receiving)[0 := Testing s],
      writer_at = WReceiving, first = True, stdout = [], crashed = True\<rparr>"

section \<open>A stub environment\<close>

text \<open>
  One concrete world, on which the program is run in the examples below: an origin
  at \<^verbatim>\<open>1.2.3.4\<close> and one at \<^verbatim>\<open>93.184.216.34\<close> that answer every request with a gzip
  body of 100 bytes, and a resolver that knows four names.
\<close>

definition stub_ParseIP :: "string \<Rightarrow> IP option" where
  "stub_ParseIP s =
     (if s = ''1.2.3.4'' then Some [0,0,0,0,0,0,0,0,0,0,255,255,1,2,3,4]
      else if s = ''::ffff:1.2.3.4'' then Some [0,0,0,0,0,0,0,0,0,0,255,255,1,2,3,4]
      else if s = ''93.184.216.34'' then Some [0,0,0,0,0,0,0,0,0,0,255,255,93,184,216,34]
      else None)"

definition after_last_colon :: "string \<Rightarrow> string" where
  "after_last_colon a = rev (takeWhile (\<lambda>c. c \<noteq> CHR '':'') (rev a))"

definition before_last_colon :: "string \<Rightarrow> string" where
  "before_last_colon a = rev (tl (dropWhile (\<lambda>c. c \<noteq> CHR '':'') (rev a)))"

definition stub_SplitHostPort :: "string \<Rightarrow> string \<times> string \<times> error option" where
  "stub_SplitHostPort a =
     (if CHR '':'' \<in> set a then (before_last_colon a, after_last_colon a, None)
      else ([], [], Some ''missing port in address''))"

definition stub_IP_String :: "IP \<Rightarrow> string" where
  "stub_IP_String ip =
     (if ip = [93,184,216,34] then ''93.184.216.34''
      else if ip = [10,0,0,1] then ''10.0.0.1''
      else ''?'')"

definition stub_url_Parse :: "string \<Rightarrow> error + URL" where
  "stub_url_Parse u =
     (let h = drop 7 u
      in if CHR ''%'' \<in> set h then Inl ''invalid URL escape''
         else if CHR '':'' \<in> set h \<and> \<not> list_all (\<lambda>c. c \<in> set ''0123456789'') (after_last_colon h)
         then Inl ''invalid port after host''
         else Inr \<lparr>URL_Scheme = ''http'', URL_Host = h, URL_Path = []\<rparr>)"

definition stub_LookupHost :: "event list \<Rightarrow> string \<Rightarrow> IP list \<times> error option" where
  "stub_LookupHost tr name =
     (if name = ''good.example'' then ([[93,184,216,34]], None)
      else if name = ''two.example'' then ([[10,0,0,1], [93,184,216,34]], None)
      else if name = ''empty.example'' then ([], None)
      else if name = ''%zz'' then ([[10,0,0,1]], None)
      else ([], Some ''NXDOMAIN''))"

definition stub_net_Dial :: "event list \<Rightarrow> string \<Rightarrow> string \<Rightarrow> Conn option \<times> error option" where
  "stub_net_Dial tr network address =
     (if address = ''1.2.3.4:80'' \<or> address = ''93.184.216.34:80'' then (Some 3, None)
      else (None, Some ''connection refused''))"

definition stub_response :: Response where
  "stub_response =
     \<lparr>resp_Header = [''Content-Encoding'' \<mapsto> [''gzip''], ''Server'' \<mapsto> [''stub'']],
      resp_Body = Some (replicate 100 0)\<rparr>"

text \<open>
  A client that dials the URL's host on port 80 once, hands back the dialer's error
  when there is one, and the stub response otherwise.
\<close>

definition stub_client_Do ::
  "(event list \<Rightarrow> string \<Rightarrow> string \<Rightarrow> (Conn option \<times> error option) \<times> event list)
    \<Rightarrow> event list \<Rightarrow> Request \<Rightarrow> (Response option \<times> error option) \<times> event list" where
  "stub_client_Do dial tr req =
     (case dial tr ''tcp'' (URL_Host (req_URL req) @ '':80'') of
        ((c, Some e), evs) \<Rightarrow> ((None, Some e), evs)
      | ((c, None), evs) \<Rightarrow> ((Some stub_response, None), evs))"

definition stub_env :: env where
  "stub_env =
     \<lparr>ParseIP = stub_ParseIP,
      SplitHostPort = stub_SplitHostPort,
      JoinHostPort = (\<lambda>h p. h @ '':'' @ p),
      IP_String = stub_IP_String,
      url_Parse = stub_url_Parse,
      LookupHost = stub_LookupHost,
      net_Dial = stub_net_Dial,
      client_Do = stub_client_Do,
      dump_flag = False\<rparr>"

text \<open>The request \<^verbatim>\<open>http.NewRequest\<close> builds in the stub world for an origin name.\<close>

definition stub_req0 :: "string \<Rightarrow> Request" where
  "stub_req0 name =
     \<lparr>req_Method = ''GET'',
      req_URL = \<lparr>URL_Scheme = ''http'', URL_Host = name, URL_Path = []\<rparr>,
      req_Header = Map.empty, req_Host = name\<rparr>"

section \<open>Properties\<close>

text \<open>
  C9. For every \<^verbatim>\<open>tri\<close> value, \<^verbatim>\<open>String\<close> returns one of three single characters:
  \<^verbatim>\<open>-\<close> exactly when the step was not attempted, \<^verbatim>\<open>t\<close> exactly when it was attempted
  and succeeded, \<^verbatim>\<open>f\<close> exactly when it was attempted and failed. The three strings
  are pairwise distinct, each has length one, and the fallback \<^verbatim>\<open>!\<close> is never
  returned.
\<close>

theorem tri_String_three_symbols:
  "(tri_String t = ''-'' \<or> tri_String t = ''t'' \<or> tri_String t = ''f'')
   \<and> length (tri_String t) = 1
   \<and> tri_String t \<noteq> ''!''
   \<and> (tri_String t = ''-'') = (tristate t = NotRun)
   \<and> (tri_String t = ''t'') = (tristate t = Succeeded)
   \<and> (tri_String t = ''f'') = (tristate t = Failed)
   \<and> ''-'' \<noteq> ''t'' \<and> ''-'' \<noteq> ''f'' \<and> ''t'' \<noteq> ''f''"
  by (simp add: tri_String_def tristate_def)

subsection \<open>Auxiliary facts\<close>

lemmas stub_defs = stub_env_def stub_ParseIP_def stub_SplitHostPort_def stub_IP_String_def
  stub_url_Parse_def stub_LookupHost_def stub_net_Dial_def stub_response_def stub_client_Do_def
  after_last_colon_def before_last_colon_def

lemma tri_overwrite: "(t::tri)\<lparr>ran := a, yesno := b\<rparr> = \<lparr>ran = a, yesno = b\<rparr>"
  by (cases t) simp

lemma http_attempts_append:
  "http_attempts (xs @ ys) = http_attempts xs @ http_attempts ys"
  by (induction xs rule: http_attempts.induct) simp_all

lemma http_attempts_logf: "http_attempts (logf s l m) = []"
  by (simp add: logf_def)

lemma http_attempts_dumpf_request: "http_attempts (dumpf env (DumpRequest r)) = []"
  by (simp add: dumpf_def)

lemma http_attempts_dumpf_response: "http_attempts (dumpf env (DumpResponse r)) = []"
  by (simp add: dumpf_def)

text \<open>Each phase, when \<^verbatim>\<open>client.Do\<close> returns an error: the early \<^verbatim>\<open>return\<close>.\<close>

lemma test_noVia_error:
  assumes "client_Do env (Dial env) (tr0 @ dumpf env (DumpRequest req) @ [HttpDo req]) req
             = ((resp, Some e), evs)"
  shows "test_noVia env l req s tr0 =
           (Returned,
            s\<lparr>noVia := (noVia s)\<lparr>ran := True\<rparr>\<rparr>,
            tr0 @ dumpf env (DumpRequest req) @ [HttpDo req] @ evs
              @ dumpf env (DumpResponse resp)
              @ logf s l (HTTPRequestFailed req e))"
  using assms by (simp add: test_noVia_def Let_def logf_def)

lemma test_via_error:
  assumes "client_Do env (Dial env)
             (tr0 @ dumpf env (DumpRequest (add_via req0)) @ [HttpDo (add_via req0)]) (add_via req0)
             = ((resp, Some e), evs)"
  shows "test_via env l req0 s tr0 =
           (Returned,
            s\<lparr>via := (via s)\<lparr>ran := True\<rparr>\<rparr>,
            tr0 @ dumpf env (DumpRequest (add_via req0)) @ [HttpDo (add_via req0)] @ evs
              @ dumpf env (DumpResponse resp)
              @ logf s l (HTTPRequestFailed (add_via req0) e))"
  using assms by (simp add: test_via_def Let_def logf_def)

lemma test_http_request:
  assumes "fst (NewRequest env ''GET'' (''http://'' @ origin s)) = Some req0"
  shows "test_http env l s tr = test_noVia env l (set_headers req0 (host s)) s tr"
  using assms by (cases "NewRequest env ''GET'' (''http://'' @ origin s)") (simp add: test_http_def)

lemma test_http_no_request:
  assumes "fst (NewRequest env ''GET'' (''http://'' @ origin s)) = None"
  shows "test_http env l s tr = (Panicked, s, tr)"
  using assms by (cases "NewRequest env ''GET'' (''http://'' @ origin s)") (simp add: test_http_def)

lemma test_resolved:
  assumes "resolves_ok env tr (origin s)"
  shows "test env l s tr =
           test_http env l (s\<lparr>resolves := \<lparr>ran = True, yesno = True\<rparr>\<rparr>)
             (if ParseIP env (origin s) = None then tr @ [Lookup (origin s)] else tr)"
  using assms
  by (cases "LookupHost env tr (origin s)")
     (auto simp add: test_def resolves_ok_def Let_def tri_overwrite split: if_splits)




subsection \<open>Resolution\<close>

text \<open>
  C1. When the origin is not an IP literal and the resolver returns an error for it,
  \<^verbatim>\<open>test\<close> returns at once: the result has \<^verbatim>\<open>resolves\<close> attempted and failed, both
  HTTP outcomes not run, both sizes zero and the four header strings empty. The only
  events are the resolver query and the log line: no request is handed to
  \<^verbatim>\<open>client.Do\<close>.
\<close>

theorem probe_resolution_fails:
  assumes "ParseIP env orig = None" and "snd (LookupHost env tr orig) = Some e"
  shows "probe env l h orig tr =
           (Returned,
            (new_site h orig)\<lparr>resolves := \<lparr>ran = True, yesno = False\<rparr>\<rparr>,
            tr @ [Lookup orig] @ logf (new_site h orig) l (ErrorResolvingName e))
         \<and> (case probe env l h orig tr of
              (out, s, tr') \<Rightarrow>
                out = Returned
                \<and> origin s = orig \<and> host s = h
                \<and> tristate (resolves s) = Failed
                \<and> tristate (noVia s) = NotRun \<and> tristate (via s) = NotRun
                \<and> noViaSize s = 0 \<and> viaSize s = 0
                \<and> noViaEncoding s = [] \<and> viaEncoding s = []
                \<and> noViaServer s = [] \<and> viaServer s = []
                \<and> http_attempts tr' = http_attempts tr)"
proof -
  obtain ips where lk: "LookupHost env tr orig = (ips, Some e)"
    using assms(2) by (cases "LookupHost env tr orig") auto
  have eq: "probe env l h orig tr =
           (Returned,
            (new_site h orig)\<lparr>resolves := \<lparr>ran = True, yesno = False\<rparr>\<rparr>,
            tr @ [Lookup orig] @ logf (new_site h orig) l (ErrorResolvingName e))"
    using assms(1) lk
    by (simp add: probe_def test_def new_site_def tri_zero_def logf_def Let_def)
  have att: "http_attempts (tr @ [Lookup orig] @ logf (new_site h orig) l (ErrorResolvingName e))
             = http_attempts tr"
    by (simp add: http_attempts_append http_attempts_logf)
  show ?thesis
    unfolding eq using att
    by (simp add: new_site_def tri_zero_def tristate_def)
qed

theorem probe_resolution_fails_witness:
  "ParseIP stub_env ''nosuch.invalid'' = None
   \<and> snd (LookupHost stub_env [] ''nosuch.invalid'') = Some ''NXDOMAIN''
   \<and> probe stub_env None ''b.example'' ''nosuch.invalid'' [] =
       (Returned,
        \<lparr>host = ''b.example'', origin = ''nosuch.invalid'',
         resolves = \<lparr>ran = True, yesno = False\<rparr>,
         noVia = \<lparr>ran = False, yesno = False\<rparr>,
         via = \<lparr>ran = False, yesno = False\<rparr>,
         noViaSize = 0, viaSize = 0, noViaEncoding = [], viaEncoding = [],
         noViaServer = [], viaServer = []\<rparr>,
        [Lookup ''nosuch.invalid''])"
proof -
  have a: "ParseIP stub_env ''nosuch.invalid'' = None"
    by (simp add: stub_env_def stub_ParseIP_def)
  have b: "snd (LookupHost stub_env [] ''nosuch.invalid'') = Some ''NXDOMAIN''"
    by (simp add: stub_env_def stub_LookupHost_def)
  show ?thesis
    using probe_resolution_fails [OF a b, of None "''b.example''"] a b
    by (simp add: new_site_def tri_zero_def logf_def)
qed



subsection \<open>The first attempt\<close>

text \<open>
  C2. When the origin resolves, the request can be built, and \<^verbatim>\<open>client.Do\<close> returns an
  error for the first request, \<^verbatim>\<open>test\<close> returns with \<^verbatim>\<open>noVia\<close> attempted and
  failed and \<^verbatim>\<open>via\<close> not run; every size is zero and every header string empty. After
  the client's own events the trace holds only the dump and the log line: \<^verbatim>\<open>test\<close>
  has handed one request to \<^verbatim>\<open>client.Do\<close>, the one without a Via header.
\<close>

theorem probe_noVia_fails:
  assumes res: "resolves_ok env tr orig"
    and req: "fst (NewRequest env ''GET'' (''http://'' @ orig)) = Some req0"
    and tr1: "tr1 = (if ParseIP env orig = None then tr @ [Lookup orig] else tr)
                     @ dumpf env (DumpRequest (set_headers req0 h))
                     @ [HttpDo (set_headers req0 h)]"
    and fail: "client_Do env (Dial env) tr1 (set_headers req0 h) = ((resp, Some e), evs)"
  shows "case probe env l h orig tr of
           (out, s, tr') \<Rightarrow>
             out = Returned
             \<and> origin s = orig \<and> host s = h
             \<and> tristate (resolves s) = Succeeded
             \<and> tristate (noVia s) = Failed
             \<and> tristate (via s) = NotRun
             \<and> noViaSize s = 0 \<and> viaSize s = 0
             \<and> noViaEncoding s = [] \<and> viaEncoding s = []
             \<and> noViaServer s = [] \<and> viaServer s = []
             \<and> tr' = tr1 @ evs @ dumpf env (DumpResponse resp)
                        @ logf (new_site h orig) l (HTTPRequestFailed (set_headers req0 h) e)
             \<and> http_attempts tr' = http_attempts tr @ [set_headers req0 h] @ http_attempts evs"
proof -
  let ?s = "(new_site h orig)\<lparr>resolves := \<lparr>ran = True, yesno = True\<rparr>\<rparr>"
  let ?tr = "if ParseIP env orig = None then tr @ [Lookup orig] else tr"
  have o: "origin (new_site h orig) = orig" "origin ?s = orig" "host ?s = h"
    by (simp_all add: new_site_def)
  have 1: "probe env l h orig tr = test_http env l ?s ?tr"
    unfolding probe_def
    using test_resolved [where env=env and s="new_site h orig" and tr=tr and l=l] res o by simp
  have 2: "test_http env l ?s ?tr = test_noVia env l (set_headers req0 h) ?s ?tr"
    using test_http_request [where env=env and s="?s" and ?req0.0=req0 and l=l and tr="?tr"] req o
    by simp
  have 3: "test_noVia env l (set_headers req0 h) ?s ?tr =
             (Returned, ?s\<lparr>noVia := (noVia ?s)\<lparr>ran := True\<rparr>\<rparr>,
              ?tr @ dumpf env (DumpRequest (set_headers req0 h)) @ [HttpDo (set_headers req0 h)]
                @ evs @ dumpf env (DumpResponse resp)
                @ logf ?s l (HTTPRequestFailed (set_headers req0 h) e))"
    by (rule test_noVia_error) (use fail tr1 in simp)
  have 4: "http_attempts ?tr = http_attempts tr"
    by (simp add: http_attempts_append)
  show ?thesis
    unfolding 1 2 3 using 4
    by (simp add: tr1 new_site_def tri_zero_def tristate_def logf_def http_attempts_append
        http_attempts_dumpf_request http_attempts_dumpf_response)
qed

theorem probe_noVia_fails_witness:
  "resolves_ok stub_env [] ''two.example''
   \<and> fst (NewRequest stub_env ''GET'' (''http://'' @ ''two.example'')) = Some (stub_req0 ''two.example'')
   \<and> client_Do stub_env (Dial stub_env)
        [Lookup ''two.example'', HttpDo (set_headers (stub_req0 ''two.example'') ''a.example'')]
        (set_headers (stub_req0 ''two.example'') ''a.example'')
       = ((None, Some ''connection refused''), [Lookup ''two.example'', NetDial ''tcp'' ''10.0.0.1:80''])
   \<and> (case probe stub_env None ''a.example'' ''two.example'' [] of
        (out, s, tr') \<Rightarrow>
          out = Returned
          \<and> tristate (resolves s) = Succeeded
          \<and> tristate (noVia s) = Failed
          \<and> tristate (via s) = NotRun
          \<and> noViaSize s = 0 \<and> viaSize s = 0
          \<and> noViaEncoding s = [] \<and> viaEncoding s = []
          \<and> noViaServer s = [] \<and> viaServer s = []
          \<and> tr' = [Lookup ''two.example'', HttpDo (set_headers (stub_req0 ''two.example'') ''a.example''),
                    Lookup ''two.example'', NetDial ''tcp'' ''10.0.0.1:80''])"
proof -
  have a: "resolves_ok stub_env [] ''two.example''"
    by (simp add: resolves_ok_def stub_env_def stub_LookupHost_def)
  have b: "fst (NewRequest stub_env ''GET'' (''http://'' @ ''two.example'')) = Some (stub_req0 ''two.example'')"
    by (simp add: NewRequest_def stub_req0_def stub_defs)
  have p: "ParseIP stub_env ''two.example'' = None"
    by (simp add: stub_defs)
  have t: "[Lookup ''two.example'', HttpDo (set_headers (stub_req0 ''two.example'') ''a.example'')] =
        (if ParseIP stub_env ''two.example'' = None then [] @ [Lookup ''two.example''] else [])
          @ dumpf stub_env (DumpRequest (set_headers (stub_req0 ''two.example'') ''a.example''))
          @ [HttpDo (set_headers (stub_req0 ''two.example'') ''a.example'')]"
    using p by (simp add: dumpf_def stub_env_def)
  have c: "client_Do stub_env (Dial stub_env)
        [Lookup ''two.example'', HttpDo (set_headers (stub_req0 ''two.example'') ''a.example'')]
        (set_headers (stub_req0 ''two.example'') ''a.example'')
       = ((None, Some ''connection refused''), [Lookup ''two.example'', NetDial ''tcp'' ''10.0.0.1:80''])"
    by (simp add: set_headers_def stub_req0_def Dial_def stub_defs)
  have d: "dumpf stub_env x = []" "logf s None m = []" for x s m
    by (simp_all add: dumpf_def logf_def stub_env_def)
  show ?thesis
    using probe_noVia_fails [OF a b t c, of None] a b c
    by (cases "probe stub_env None ''a.example'' ''two.example'' []") (simp add: d)
qed

subsection \<open>The dialer\<close>

text \<open>
  C7. When the address splits into a host that is not an IP literal and a port, and
  the resolver returns addresses for the host without an error: if the list is empty
  the dialer returns the error \<^verbatim>\<open>Failed to get any IPs for <address>\<close> and calls
  \<^verbatim>\<open>net.Dial\<close> not at all; otherwise it calls \<^verbatim>\<open>net.Dial\<close> once, on the first address
  of the list joined with the port, and returns what that call returns, an error
  included (no other address is tried). In either phase of \<^verbatim>\<open>test\<close>, when the client
  hands the dialer's error back for the empty list, the phase returns with its outcome
  attempted and failed.
\<close>

theorem Dial_takes_first_address:
  assumes "SplitHostPort env address = (h, port, None)"
    and "ParseIP env h = None"
    and "LookupHost env tr h = (ips, None)"
  shows "(ips = [] \<longrightarrow>
            Dial env tr network address
              = ((None, Some (''Failed to get any IPs for '' @ address)), [Lookup h]))
       \<and> (ips \<noteq> [] \<longrightarrow>
            Dial env tr network address
              = (net_Dial env (tr @ [Lookup h]) network
                   (JoinHostPort env (IP_String env (hd ips)) port),
                 [Lookup h, NetDial network (JoinHostPort env (IP_String env (hd ips)) port)]))
       \<and> (\<forall>l req s tr0.
            ips = [] \<and> \<not> yesno (noVia s)
            \<and> tr = tr0 @ dumpf env (DumpRequest req) @ [HttpDo req]
            \<and> snd (fst (client_Do env (Dial env) tr req))
                = snd (fst (Dial env tr network address))
            \<longrightarrow> (case test_noVia env l req s tr0 of
                   (out, s', tr') \<Rightarrow>
                     out = Returned \<and> tristate (noVia s') = Failed \<and> via s' = via s))
       \<and> (\<forall>l req0 s tr0.
            ips = [] \<and> \<not> yesno (via s)
            \<and> tr = tr0 @ dumpf env (DumpRequest (add_via req0)) @ [HttpDo (add_via req0)]
            \<and> snd (fst (client_Do env (Dial env) tr (add_via req0)))
                = snd (fst (Dial env tr network address))
            \<longrightarrow> (case test_via env l req0 s tr0 of
                   (out, s', tr') \<Rightarrow>
                     out = Returned \<and> tristate (via s') = Failed \<and> noVia s' = noVia s))"
proof -
  let ?msg = "''Failed to get any IPs for '' @ address"
  have empty: "Dial env tr network address = ((None, Some ?msg), [Lookup h])"
    if "ips = []"
    using assms that by (simp add: Dial_def)
  have first: "Dial env tr network address
              = (net_Dial env (tr @ [Lookup h]) network
                   (JoinHostPort env (IP_String env (hd ips)) port),
                 [Lookup h, NetDial network (JoinHostPort env (IP_String env (hd ips)) port)])"
    if "ips \<noteq> []"
    using assms that by (simp add: Dial_def Let_def hd_conv_nth)
  have noVia: "case test_noVia env l req s tr0 of
                   (out, s', tr') \<Rightarrow>
                     out = Returned \<and> tristate (noVia s') = Failed \<and> via s' = via s"
    if "ips = []" "\<not> yesno (noVia s)" "tr = tr0 @ dumpf env (DumpRequest req) @ [HttpDo req]"
      "snd (fst (client_Do env (Dial env) tr req)) = snd (fst (Dial env tr network address))"
    for l req s tr0
  proof -
    obtain resp err evs where c: "client_Do env (Dial env) tr req = ((resp, err), evs)"
      by (metis surj_pair)
    have "err = Some ?msg"
      using that(4) empty [OF that(1)] c by simp
    then have "client_Do env (Dial env) (tr0 @ dumpf env (DumpRequest req) @ [HttpDo req]) req
                 = ((resp, Some ?msg), evs)"
      using c that(3) by simp
    from test_noVia_error [OF this] that(2) show ?thesis
      by (simp add: tristate_def)
  qed
  have via: "case test_via env l req0 s tr0 of
                   (out, s', tr') \<Rightarrow>
                     out = Returned \<and> tristate (via s') = Failed \<and> noVia s' = noVia s"
    if "ips = []" "\<not> yesno (via s)"
      "tr = tr0 @ dumpf env (DumpRequest (add_via req0)) @ [HttpDo (add_via req0)]"
      "snd (fst (client_Do env (Dial env) tr (add_via req0)))
         = snd (fst (Dial env tr network address))"
    for l req0 s tr0
  proof -
    obtain resp err evs where
      c: "client_Do env (Dial env) tr (add_via req0) = ((resp, err), evs)"
      by (metis surj_pair)
    have "err = Some ?msg"
      using that(4) empty [OF that(1)] c by simp
    then have "client_Do env (Dial env)
                 (tr0 @ dumpf env (DumpRequest (add_via req0)) @ [HttpDo (add_via req0)])
                 (add_via req0)
                 = ((resp, Some ?msg), evs)"
      using c that(3) by simp
    from test_via_error [OF this] that(2) show ?thesis
      by (simp add: tristate_def)
  qed
  show ?thesis
  proof (intro conjI allI impI)
    show "Dial env tr network address = ((None, Some ?msg), [Lookup h])" if "ips = []"
      using that by (rule empty)
    show "Dial env tr network address
              = (net_Dial env (tr @ [Lookup h]) network
                   (JoinHostPort env (IP_String env (hd ips)) port),
                 [Lookup h, NetDial network (JoinHostPort env (IP_String env (hd ips)) port)])"
      if "ips \<noteq> []"
      using that by (rule first)
  next
    fix l req tr0 and s :: site
    assume hyp: "ips = [] \<and> \<not> yesno (noVia s)
            \<and> tr = tr0 @ dumpf env (DumpRequest req) @ [HttpDo req]
            \<and> snd (fst (client_Do env (Dial env) tr req))
                = snd (fst (Dial env tr network address))"
    show "case test_noVia env l req s tr0 of
                   (out, s', tr') \<Rightarrow>
                     out = Returned \<and> tristate (noVia s') = Failed \<and> via s' = via s"
      by (rule noVia [OF hyp [THEN conjunct1] hyp [THEN conjunct2, THEN conjunct1]
            hyp [THEN conjunct2, THEN conjunct2, THEN conjunct1]
            hyp [THEN conjunct2, THEN conjunct2, THEN conjunct2]])
  next
    fix l req0 tr0 and s :: site
    assume hyp: "ips = [] \<and> \<not> yesno (via s)
            \<and> tr = tr0 @ dumpf env (DumpRequest (add_via req0)) @ [HttpDo (add_via req0)]
            \<and> snd (fst (client_Do env (Dial env) tr (add_via req0)))
                = snd (fst (Dial env tr network address))"
    show "case test_via env l req0 s tr0 of
                   (out, s', tr') \<Rightarrow>
                     out = Returned \<and> tristate (via s') = Failed \<and> noVia s' = noVia s"
      by (rule via [OF hyp [THEN conjunct1] hyp [THEN conjunct2, THEN conjunct1]
            hyp [THEN conjunct2, THEN conjunct2, THEN conjunct1]
            hyp [THEN conjunct2, THEN conjunct2, THEN conjunct2]])
  qed
qed

theorem Dial_takes_first_address_witness:
  "SplitHostPort stub_env ''empty.example:80'' = (''empty.example'', ''80'', None)
   \<and> ParseIP stub_env ''empty.example'' = None
   \<and> LookupHost stub_env [HttpDo (set_headers (stub_req0 ''empty.example'') ''a.example'')]
        ''empty.example'' = ([], None)
   \<and> Dial stub_env [HttpDo (set_headers (stub_req0 ''empty.example'') ''a.example'')]
        ''tcp'' ''empty.example:80''
        = ((None, Some ''Failed to get any IPs for empty.example:80''), [Lookup ''empty.example''])
   \<and> (case test_noVia stub_env None (set_headers (stub_req0 ''empty.example'') ''a.example'')
               (new_site ''a.example'' ''empty.example'') [] of
        (out, s', tr') \<Rightarrow> out = Returned \<and> tristate (noVia s') = Failed \<and> via s' = tri_zero)
   \<and> SplitHostPort stub_env ''two.example:80'' = (''two.example'', ''80'', None)
   \<and> ParseIP stub_env ''two.example'' = None
   \<and> LookupHost stub_env [] ''two.example'' = ([[10,0,0,1], [93,184,216,34]], None)
   \<and> Dial stub_env [] ''tcp'' ''two.example:80''
        = ((None, Some ''connection refused''),
           [Lookup ''two.example'', NetDial ''tcp'' ''10.0.0.1:80''])"
proof -
  let ?req = "set_headers (stub_req0 ''empty.example'') ''a.example''"
  let ?s = "new_site ''a.example'' ''empty.example''"
  have a1: "SplitHostPort stub_env ''empty.example:80'' = (''empty.example'', ''80'', None)"
    by (simp add: stub_defs)
  have a2: "ParseIP stub_env ''empty.example'' = None"
    by (simp add: stub_defs)
  have a3: "LookupHost stub_env [HttpDo ?req] ''empty.example'' = ([], None)"
    by (simp add: stub_defs)
  have b1: "SplitHostPort stub_env ''two.example:80'' = (''two.example'', ''80'', None)"
    by (simp add: stub_defs)
  have b2: "ParseIP stub_env ''two.example'' = None"
    by (simp add: stub_defs)
  have b3: "LookupHost stub_env [] ''two.example'' = ([[10,0,0,1], [93,184,216,34]], None)"
    by (simp add: stub_defs)
  have n: "net_Dial stub_env [Lookup ''two.example''] ''tcp''
             (JoinHostPort stub_env (IP_String stub_env (hd [[10,0,0,1], [93,184,216,34]])) ''80'')
           = (None, Some ''connection refused'')"
    by (simp add: stub_defs)
  have j: "JoinHostPort stub_env (IP_String stub_env (hd [[10,0,0,1], [93,184,216,34]])) ''80''
           = ''10.0.0.1:80''"
    by (simp add: stub_defs)
  note empty = Dial_takes_first_address [OF a1 a2 a3, of "''tcp''"]
  have e: "Dial stub_env [HttpDo ?req] ''tcp'' ''empty.example:80''
        = ((None, Some ''Failed to get any IPs for empty.example:80''), [Lookup ''empty.example''])"
    using empty [THEN conjunct1] by simp
  have c': "snd (fst (client_Do stub_env (Dial stub_env) [HttpDo ?req] ?req))
             = snd (fst (Dial stub_env [HttpDo ?req] ''tcp'' ''empty.example:80''))"
    unfolding e by (simp add: set_headers_def stub_req0_def Dial_def stub_defs)
  have d: "[HttpDo ?req] = [] @ dumpf stub_env (DumpRequest ?req) @ [HttpDo ?req]"
    by (simp add: dumpf_def stub_env_def)
  have y: "\<not> yesno (noVia ?s)" and v: "via ?s = tri_zero"
    by (simp_all add: new_site_def tri_zero_def)
  have p: "case test_noVia stub_env None ?req ?s [] of
        (out, s', tr') \<Rightarrow> out = Returned \<and> tristate (noVia s') = Failed \<and> via s' = tri_zero"
    using empty [THEN conjunct2, THEN conjunct2, THEN conjunct1, rule_format,
        of ?s "[]" ?req None] y d c' v
    by simp
  have f: "Dial stub_env [] ''tcp'' ''two.example:80''
        = ((None, Some ''connection refused''),
           [Lookup ''two.example'', NetDial ''tcp'' ''10.0.0.1:80''])"
    using Dial_takes_first_address [OF b1 b2 b3, of "''tcp''", THEN conjunct2, THEN conjunct1] n j
    by simp
  show ?thesis
    using a1 a2 a3 b1 b2 b3 e f p by simp
qed

subsection \<open>A request that cannot be built\<close>

lemma probe_without_request:
  assumes "resolves_ok env tr orig"
    and "fst (NewRequest env ''GET'' (''http://'' @ orig)) = None"
  shows "probe env l h orig tr =
           (Panicked,
            (new_site h orig)\<lparr>resolves := \<lparr>ran = True, yesno = True\<rparr>\<rparr>,
            (if ParseIP env orig = None then tr @ [Lookup orig] else tr))"
proof -
  have o: "origin (new_site h orig) = orig"
    by (simp add: new_site_def)
  show ?thesis
    unfolding probe_def
    using test_resolved [where env=env and s="new_site h orig" and tr=tr and l=l] assms
      test_http_no_request [where env=env
        and s="(new_site h orig)\<lparr>resolves := \<lparr>ran = True, yesno = True\<rparr>\<rparr>" and l=l]
    by (simp add: o)
qed

text \<open>
  C3. \<^verbatim>\<open>test\<close> does not return for every target. When \<^verbatim>\<open>http.NewRequest\<close> fails, its
  error is not looked at and the \<^verbatim>\<open>nil\<close> request is dereferenced at line 155: the run
  panics, after \<^verbatim>\<open>resolves\<close> has been set, and nothing is recorded for the caller. In
  the stub world this is what happens for the IP literal \<^verbatim>\<open>::ffff:1.2.3.4\<close> (Go's
  \<^verbatim>\<open>url.Parse\<close> reads the text after the last colon of an unbracketed host as a port,
  and rejects \<^verbatim>\<open>:1.2.3.4\<close>) and for the name \<^verbatim>\<open>%zz\<close> (an invalid escape in the host),
  which the stub resolver answers.
\<close>

theorem probe_panics_on_unparsable_url:
  "probe stub_env None ''a.example'' ''::ffff:1.2.3.4'' [] =
     (Panicked,
      \<lparr>host = ''a.example'', origin = ''::ffff:1.2.3.4'',
       resolves = \<lparr>ran = True, yesno = True\<rparr>,
       noVia = \<lparr>ran = False, yesno = False\<rparr>,
       via = \<lparr>ran = False, yesno = False\<rparr>,
       noViaSize = 0, viaSize = 0, noViaEncoding = [], viaEncoding = [],
       noViaServer = [], viaServer = []\<rparr>,
      [])
   \<and> probe stub_env None ''a.example'' ''%zz'' [] =
     (Panicked,
      \<lparr>host = ''a.example'', origin = ''%zz'',
       resolves = \<lparr>ran = True, yesno = True\<rparr>,
       noVia = \<lparr>ran = False, yesno = False\<rparr>,
       via = \<lparr>ran = False, yesno = False\<rparr>,
       noViaSize = 0, viaSize = 0, noViaEncoding = [], viaEncoding = [],
       noViaServer = [], viaServer = []\<rparr>,
      [Lookup ''%zz''])"
proof -
  have 1: "resolves_ok stub_env [] ''::ffff:1.2.3.4''" "resolves_ok stub_env [] ''%zz''"
    by (simp_all add: resolves_ok_def stub_defs)
  have 2: "fst (NewRequest stub_env ''GET'' (''http://'' @ ''::ffff:1.2.3.4'')) = None"
    "fst (NewRequest stub_env ''GET'' (''http://'' @ ''%zz'')) = None"
    by (simp_all add: NewRequest_def stub_defs)
  have 3: "ParseIP stub_env ''::ffff:1.2.3.4'' \<noteq> None" "ParseIP stub_env ''%zz'' = None"
    by (simp_all add: stub_defs)
  show ?thesis
    using probe_without_request [OF 1(1) 2(1), of None "''a.example''"]
      probe_without_request [OF 1(2) 2(2), of None "''a.example''"] 3
    by (simp add: new_site_def tri_zero_def)
qed

subsection \<open>When \<^verbatim>\<open>test\<close> returns\<close>

lemma test_via_returns:
  assumes "Do_contract env"
  shows "fst (test_via env l req s tr) = Returned"
proof -
  let ?tr = "tr @ dumpf env (DumpRequest (add_via req)) @ [HttpDo (add_via req)]"
  obtain resp err evs where d: "client_Do env (Dial env) ?tr (add_via req) = ((resp, err), evs)"
    by (metis surj_pair)
  with assms have "(resp, err) \<noteq> (None, None)"
    unfolding Do_contract_def by (metis fst_conv)
  with d show ?thesis
    by (cases err; cases resp) (simp_all add: test_via_def Let_def)
qed

lemma test_noVia_returns:
  assumes "Do_contract env"
  shows "fst (test_noVia env l req s tr) = Returned"
proof -
  let ?tr = "tr @ dumpf env (DumpRequest req) @ [HttpDo req]"
  obtain resp err evs where d: "client_Do env (Dial env) ?tr req = ((resp, err), evs)"
    by (metis surj_pair)
  with assms have "(resp, err) \<noteq> (None, None)"
    unfolding Do_contract_def by (metis fst_conv)
  with d show ?thesis
    by (cases err; cases resp) (simp_all add: test_noVia_def Let_def test_via_returns [OF assms])
qed

lemma test_returns_unless_request_fails:
  assumes "Do_contract env"
    and "\<not> resolves_ok env tr (origin s) \<or> fst (NewRequest env ''GET'' (''http://'' @ origin s)) \<noteq> None"
  shows "fst (test env l s tr) = Returned"
proof (cases "resolves_ok env tr (origin s)")
  case True
  with assms(2) obtain req0 where
    q: "fst (NewRequest env ''GET'' (''http://'' @ origin s)) = Some req0"
    by auto
  let ?s = "s\<lparr>resolves := \<lparr>ran = True, yesno = True\<rparr>\<rparr>"
  have "origin ?s = origin s" by simp
  with q have "fst (NewRequest env ''GET'' (''http://'' @ origin ?s)) = Some req0" by simp
  from test_http_request [OF this] show ?thesis
    unfolding test_resolved [OF True] by (simp add: test_noVia_returns [OF assms(1)])
next
  case False
  then have p: "ParseIP env (origin s) = None" and e: "snd (LookupHost env tr (origin s)) \<noteq> None"
    by (simp_all add: resolves_ok_def split: if_splits)
  then obtain ips err where "LookupHost env tr (origin s) = (ips, Some err)"
    by (cases "LookupHost env tr (origin s)") auto
  with p show ?thesis
    by (simp add: test_def Let_def)
qed

subsection \<open>The Host header\<close>

lemma wire_Host_set_headers: "wire_Host (set_headers req0 h) = wire_Host req0"
  by (simp add: wire_Host_def set_headers_def)

lemma wire_Host_add_via: "wire_Host (add_via r) = wire_Host r"
  by (simp add: wire_Host_def add_via_def)

lemma wire_Header_Host: "wire_Header r ''Host'' = None"
  by (simp add: wire_Header_def reqWriteExcludeHeader_def)

lemma NewRequest_wire_Host:
  assumes "url_Parse env urlStr = Inr u"
  shows "\<exists>r. NewRequest env method urlStr = (Some r, None) \<and> wire_Host r = URL_Host u"
  using assms by (simp add: NewRequest_def wire_Host_def)

lemma requests_differ_in_Via_only:
  "req_Method (add_via r) = req_Method r \<and> req_URL (add_via r) = req_URL r
   \<and> req_Host (add_via r) = req_Host r
   \<and> req_Header (add_via r) = (req_Header r)(''Via'' \<mapsto> [''viascan 1.0''])"
  by (simp add: add_via_def Header_Set_def)

text \<open>
  C4. The two requests handed to \<^verbatim>\<open>client.Do\<close> differ in the \<^verbatim>\<open>Via\<close> entry of their
  header map only, and both hold the Host header value of the input line under the key
  \<^verbatim>\<open>Host\<close> of that map. The request writer skips that key: the \<^verbatim>\<open>Host:\<close> line it
  sends is the request's \<^verbatim>\<open>Host\<close> field, which \<^verbatim>\<open>http.NewRequest\<close> has set to the host
  of the URL, the origin, and which \<^verbatim>\<open>test\<close> never assigns. In the stub world, for
  the input line \<^verbatim>\<open>www.example,good.example\<close>, both requests go out with
  \<^verbatim>\<open>Host: good.example\<close>.
\<close>

theorem Host_header_on_the_wire:
  "http_attempts (snd (snd (probe stub_env None ''www.example'' ''good.example'' [])))
     = [set_headers (stub_req0 ''good.example'') ''www.example'',
        add_via (set_headers (stub_req0 ''good.example'') ''www.example'')]
   \<and> req_Header (set_headers (stub_req0 ''good.example'') ''www.example'') ''Host''
        = Some [''www.example'']
   \<and> wire_Header (set_headers (stub_req0 ''good.example'') ''www.example'') ''Host'' = None
   \<and> wire_Host (set_headers (stub_req0 ''good.example'') ''www.example'') = ''good.example''
   \<and> wire_Host (add_via (set_headers (stub_req0 ''good.example'') ''www.example''))
        = ''good.example''"
proof -
  let ?r = "set_headers (stub_req0 ''good.example'') ''www.example''"
  have r: "resolves_ok stub_env [] ''good.example''"
    by (simp add: resolves_ok_def stub_defs)
  have q: "fst (NewRequest stub_env ''GET'' (''http://'' @ ''good.example''))
             = Some (stub_req0 ''good.example'')"
    by (simp add: NewRequest_def stub_req0_def stub_defs)
  have d1: "client_Do stub_env (Dial stub_env) tr ?r
              = ((Some stub_response, None), [Lookup ''good.example'', NetDial ''tcp'' ''93.184.216.34:80''])"
    for tr
    by (simp add: set_headers_def stub_req0_def Dial_def stub_env_def stub_client_Do_def
        stub_ParseIP_def stub_SplitHostPort_def stub_IP_String_def stub_LookupHost_def
        stub_net_Dial_def after_last_colon_def before_last_colon_def)
  have d2: "client_Do stub_env (Dial stub_env) tr (add_via ?r)
              = ((Some stub_response, None), [Lookup ''good.example'', NetDial ''tcp'' ''93.184.216.34:80''])"
    for tr
    by (simp add: add_via_def set_headers_def stub_req0_def Dial_def stub_env_def stub_client_Do_def
        stub_ParseIP_def stub_SplitHostPort_def stub_IP_String_def stub_LookupHost_def
        stub_net_Dial_def after_last_colon_def before_last_colon_def)
  have dm: "dumpf stub_env x = []" for x
    by (simp add: dumpf_def stub_env_def)
  have p: "ParseIP stub_env ''good.example'' = None"
    by (simp add: stub_defs)
  have o: "origin (new_site ''www.example'' ''good.example'') = ''good.example''"
    "host (new_site ''www.example'' ''good.example'') = ''www.example''"
    by (simp_all add: new_site_def)
  have "probe stub_env None ''www.example'' ''good.example'' [] =
          test_noVia stub_env None ?r
            ((new_site ''www.example'' ''good.example'')\<lparr>resolves := \<lparr>ran = True, yesno = True\<rparr>\<rparr>)
            [Lookup ''good.example'']"
    unfolding probe_def
    using test_resolved [where env=stub_env and s="new_site ''www.example'' ''good.example''"
        and tr="[]" and l=None] r q p o
      test_http_request [where env=stub_env
        and s="(new_site ''www.example'' ''good.example'')\<lparr>resolves := \<lparr>ran = True, yesno = True\<rparr>\<rparr>"
        and ?req0.0="stub_req0 ''good.example''" and l=None and tr="[Lookup ''good.example'']"]
    by simp
  then have att: "http_attempts (snd (snd (probe stub_env None ''www.example'' ''good.example'' [])))
     = [?r, add_via ?r]"
    by (simp add: test_noVia_def test_via_def d1 d2 dm Let_def logf_def)
  have h: "req_Header ?r ''Host'' = Some [''www.example'']"
    by (simp add: set_headers_def Header_Set_def)
  have w: "wire_Host ?r = ''good.example''"
    by (simp add: wire_Host_set_headers) (simp add: wire_Host_def stub_req0_def)
  show ?thesis
    using att h w by (simp add: wire_Host_add_via wire_Header_Host)
qed

subsection \<open>The examples of the documentation\<close>

lemma Itoa_100: "Itoa 100 = ''100''"
  by (simp add: Itoa_def Itoa_nat.simps digit_def)

lemma Itoa_0: "Itoa 0 = ''0''"
  by (simp add: Itoa_def Itoa_nat.simps digit_def)

lemma example_both_attempts_succeed:
  "site_String (fst (snd (probe stub_env None ''a.example'' ''1.2.3.4'' [])))
     = ''1.2.3.4,a.example,t,t,t,100,100,gzip,gzip,stub,stub''"
proof -
  let ?r = "set_headers (stub_req0 ''1.2.3.4'') ''a.example''"
  have d1: "client_Do stub_env (Dial stub_env) tr ?r
              = ((Some stub_response, None), [NetDial ''tcp'' ''1.2.3.4:80''])" for tr
    by (simp add: set_headers_def stub_req0_def Dial_def stub_env_def stub_client_Do_def
        stub_ParseIP_def stub_SplitHostPort_def stub_net_Dial_def after_last_colon_def
        before_last_colon_def)
  have d2: "client_Do stub_env (Dial stub_env) tr (add_via ?r)
              = ((Some stub_response, None), [NetDial ''tcp'' ''1.2.3.4:80''])" for tr
    by (simp add: add_via_def set_headers_def stub_req0_def Dial_def stub_env_def
        stub_client_Do_def stub_ParseIP_def stub_SplitHostPort_def stub_net_Dial_def
        after_last_colon_def before_last_colon_def)
  have q: "fst (NewRequest stub_env ''GET'' (''http://'' @ ''1.2.3.4'')) = Some (stub_req0 ''1.2.3.4'')"
    by (simp add: NewRequest_def stub_req0_def stub_env_def stub_url_Parse_def)
  have p: "ParseIP stub_env ''1.2.3.4'' \<noteq> None"
    by (simp add: stub_env_def stub_ParseIP_def)
  then have r: "resolves_ok stub_env [] ''1.2.3.4''"
    by (auto simp add: resolves_ok_def)
  have dm: "dumpf stub_env x = []" for x
    by (simp add: dumpf_def stub_env_def)
  let ?s = "(new_site ''a.example'' ''1.2.3.4'')\<lparr>resolves := \<lparr>ran = True, yesno = True\<rparr>\<rparr>"
  have o: "origin (new_site ''a.example'' ''1.2.3.4'') = ''1.2.3.4''"
    "host (new_site ''a.example'' ''1.2.3.4'') = ''a.example''"
    by (simp_all add: new_site_def)
  have "probe stub_env None ''a.example'' ''1.2.3.4'' [] = test_noVia stub_env None ?r ?s []"
    unfolding probe_def
    using test_resolved [where env=stub_env and s="new_site ''a.example'' ''1.2.3.4''"
        and tr="[]" and l=None] r q p o
      test_http_request [where env=stub_env and s="?s" and ?req0.0="stub_req0 ''1.2.3.4''"
        and l=None and tr="[]"]
    by simp
  then have "fst (snd (probe stub_env None ''a.example'' ''1.2.3.4'' [])) =
          \<lparr>host = ''a.example'', origin = ''1.2.3.4'',
           resolves = \<lparr>ran = True, yesno = True\<rparr>,
           noVia = \<lparr>ran = True, yesno = True\<rparr>,
           via = \<lparr>ran = True, yesno = True\<rparr>,
           noViaSize = 100, viaSize = 100, noViaEncoding = ''gzip'', viaEncoding = ''gzip'',
           noViaServer = ''stub'', viaServer = ''stub''\<rparr>"
    by (simp add: test_noVia_def test_via_def d1 d2 dm new_site_def tri_zero_def Let_def
        stub_response_def Header_Get_def)
  then show ?thesis
    by (simp add: site_String_def tri_String_def Itoa_100)
qed

lemma example_resolution_fails:
  "site_String (fst (snd (probe stub_env None ''b.example'' ''nosuch.invalid'' [])))
     = ''nosuch.invalid,b.example,f,-,-,0,0,,,,''"
proof -
  have a: "ParseIP stub_env ''nosuch.invalid'' = None"
    by (simp add: stub_env_def stub_ParseIP_def)
  have b: "LookupHost stub_env [] ''nosuch.invalid'' = ([], Some ''NXDOMAIN'')"
    by (simp add: stub_env_def stub_LookupHost_def)
  have "fst (snd (probe stub_env None ''b.example'' ''nosuch.invalid'' [])) =
          (new_site ''b.example'' ''nosuch.invalid'')\<lparr>resolves := \<lparr>ran = True, yesno = False\<rparr>\<rparr>"
    using a b by (simp add: probe_def test_def Let_def new_site_def tri_zero_def)
  then show ?thesis
    by (simp add: site_String_def tri_String_def Itoa_0 new_site_def tri_zero_def)
qed

section \<open>The pool\<close>

subsection \<open>Input lines\<close>

lemma Split_not_Nil: "Split s sep \<noteq> []"
  by (induction s) (auto split: list.splits)

lemma length_Split: "length (Split s sep) = Suc (count_list s sep)"
proof (induction s)
  case Nil
  show ?case by simp
next
  case (Cons c cs)
  then show ?case
    using Split_not_Nil [of cs sep] by (cases "Split cs sep") auto
qed

lemma Split_no_sep: "sep \<notin> set s \<Longrightarrow> Split s sep = [s]"
  by (induction s) auto

lemma Split_one_sep:
  "count_list s sep = 1 \<Longrightarrow>
     Split s sep = [takeWhile (\<lambda>c. c \<noteq> sep) s, tl (dropWhile (\<lambda>c. c \<noteq> sep) s)]"
proof (induction s)
  case Nil
  then show ?case by simp
next
  case (Cons c cs)
  show ?case
  proof (cases "c = sep")
    case True
    with Cons.prems have "count_list cs sep = 0" by simp
    then have "sep \<notin> set cs" by (simp add: count_list_0_iff)
    with True show ?thesis by (simp add: Split_no_sep)
  next
    case False
    with Cons show ?thesis by simp
  qed
qed

lemma scan_line_one_comma:
  assumes "count_list text (CHR '','') = 1"
  shows "scan_line text =
           Enqueue (new_site (takeWhile (\<lambda>c. c \<noteq> CHR '','') text)
                             (tl (dropWhile (\<lambda>c. c \<noteq> CHR '','') text)))"
  using assms by (simp add: scan_line_def Split_one_sep)

lemma scan_line_Report: "(scan_line text = Report text') =
    (count_list text (CHR '','') \<noteq> 1 \<and> text' = text)"
  by (auto simp add: scan_line_def length_Split Let_def)

lemma queued_append: "queued (xs @ ys) = queued xs @ queued ys"
  by (induction xs rule: queued.induct) simp_all

lemma reported_append: "reported (xs @ ys) = reported xs @ reported ys"
  by (induction xs rule: reported.induct) simp_all

lemma results_append: "results (xs @ ys) = results xs @ results ys"
  by (induction xs rule: results.induct) simp_all

lemma results_dumps: "results (dumps tr) = []"
  by (induction tr rule: dumps.induct) simp_all

subsection \<open>Invariants of the pool\<close>

lemma sum_list_map_update:
  fixes f :: "'a \<Rightarrow> 'b::comm_monoid_add"
  shows "i < length ws \<Longrightarrow>
    sum_list (map f (ws[i := w])) + f (ws ! i) = sum_list (map f ws) + f w"
proof (induction ws arbitrary: i)
  case Nil
  then show ?case by simp
next
  case (Cons a ws)
  show ?case
  proof (cases i)
    case 0
    then show ?thesis by (simp add: ac_simps)
  next
    case (Suc j)
    with Cons.prems have "j < length ws" by simp
    from Cons.IH [OF this] Suc show ?thesis
      by (simp add: ac_simps)
  qed
qed

lemma step_in_flight:
  assumes "step env l flds p p'"
  shows "in_flight env l p' = in_flight env l p"
  using assms
proof (cases rule: step.cases)
  case (scan_bad ln rest ln')
  then show ?thesis
    by (simp add: in_flight_def scan_lines_def results_append)
next
  case (scan_good ln rest s)
  then show ?thesis
    by (simp add: in_flight_def scan_lines_def)
next
  case (work_handoff s i)
  then show ?thesis
    using sum_list_map_update [of i "workers p" "worker_holds env l" "Testing s"]
    by (simp add: in_flight_def)
next
  case (test_returns i s s' tr)
  then show ?thesis
    using sum_list_map_update [of i "workers p" "worker_holds env l" "Delivering s'"]
    by (simp add: in_flight_def results_append results_dumps tested_def)
next
  case (test_panics i s s' tr)
  then show ?thesis
    by (simp add: in_flight_def results_append results_dumps)
next
  case (result_handoff i s)
  then show ?thesis
    using sum_list_map_update [of i "workers p" "worker_holds env l" "Receiving"]
    by (simp add: in_flight_def)
next
  case (writer_prints s)
  then show ?thesis
    by (simp add: in_flight_def results_append)
next
  case close_work
  then show ?thesis by (simp add: in_flight_def)
next
  case (worker_done i)
  then show ?thesis
    using sum_list_map_update [of i "workers p" "worker_holds env l" "Done"]
    by (simp add: in_flight_def)
next
  case close_result
  then show ?thesis by (simp add: in_flight_def)
next
  case writer_done
  then show ?thesis by (simp add: in_flight_def)
next
  case main_returns
  then show ?thesis by (simp add: in_flight_def)
qed

lemma sum_list_replicate_empty_mset: "sum_list (replicate n ({#} :: 'a multiset)) = {#}"
  by (induction n) simp_all

lemma sum_list_replicate_empty:
  "sum_list (map (worker_holds env l) (replicate n Receiving)) = {#}"
  by (simp add: sum_list_replicate_empty_mset)

lemma reachable_in_flight:
  assumes "reachable env l flds n texts p"
  shows "in_flight env l p = mset (map (tested env l) (queued (scan_lines texts)))"
  using assms unfolding reachable_def
proof (induction rule: rtranclp_induct)
  case base
  show ?case by (simp add: in_flight_def init_pool_def sum_list_replicate_empty_mset)
next
  case (step y z)
  then show ?case using step_in_flight by simp
qed

lemma list_all_Done_nth:
  "list_all (\<lambda>w. w = Done) ws \<Longrightarrow> i < length ws \<Longrightarrow> ws ! i = Done"
  by (simp add: list_all_length)

lemma list_ex_update_not:
  "\<not> list_ex P ws \<Longrightarrow> \<not> P w \<Longrightarrow> \<not> list_ex P (ws[i := w])"
  using set_update_subset_insert [of ws i w] by (auto simp add: list_ex_iff)

lemma step_ordered:
  assumes "step env l flds p p'" and "ordered p"
  shows "ordered p'"
  using assms(1)
proof (cases rule: step.cases)
  case (scan_bad ln rest ln')
  with assms(2) show ?thesis by (simp add: ordered_def past_scan_def past_wait_def list_ex_update_not split: if_splits)
next
  case (scan_good ln rest s)
  with assms(2) show ?thesis by (simp add: ordered_def past_scan_def past_wait_def list_ex_update_not split: if_splits)
next
  case (work_handoff s i)
  with assms(2) show ?thesis by (simp add: ordered_def past_scan_def past_wait_def list_ex_update_not split: if_splits)
next
  case (test_returns i s s' tr)
  have "\<not> past_wait p"
  proof
    assume "past_wait p"
    with assms(2) have "list_all (\<lambda>w. w = Done) (workers p)" by (simp add: ordered_def)
    from list_all_Done_nth [OF this test_returns(3)] test_returns(4) show False by simp
  qed
  with assms(2) test_returns show ?thesis
    by (simp add: ordered_def past_scan_def past_wait_def list_ex_update_not split: if_splits)
next
  case (test_panics i s s' tr)
  with assms(2) show ?thesis by (simp add: ordered_def past_scan_def past_wait_def list_ex_update_not split: if_splits)
next
  case (result_handoff i s)
  have "\<not> past_wait p"
  proof
    assume "past_wait p"
    with assms(2) have "list_all (\<lambda>w. w = Done) (workers p)" by (simp add: ordered_def)
    from list_all_Done_nth [OF this result_handoff(3)] result_handoff(4) show False by simp
  qed
  with assms(2) result_handoff show ?thesis
    by (simp add: ordered_def past_scan_def past_wait_def list_ex_update_not split: if_splits)
next
  case (writer_prints s)
  with assms(2) show ?thesis by (simp add: ordered_def past_scan_def past_wait_def list_ex_update_not split: if_splits)
next
  case close_work
  with assms(2) show ?thesis by (simp add: ordered_def past_scan_def past_wait_def list_ex_update_not split: if_splits)
next
  case (worker_done i)
  with assms(2) show ?thesis by (simp add: ordered_def past_scan_def past_wait_def list_ex_update_not split: if_splits)
next
  case close_result
  with assms(2) show ?thesis by (simp add: ordered_def past_scan_def past_wait_def list_ex_update_not split: if_splits)
next
  case writer_done
  with assms(2) show ?thesis by (simp add: ordered_def past_scan_def past_wait_def list_ex_update_not split: if_splits)
next
  case main_returns
  with assms(2) show ?thesis by (simp add: ordered_def past_scan_def past_wait_def list_ex_update_not split: if_splits)
qed

lemma reachable_ordered:
  assumes "reachable env l flds n texts p"
  shows "ordered p"
  using assms unfolding reachable_def
proof (induction rule: rtranclp_induct)
  case base
  show ?case
    by (simp add: ordered_def past_scan_def past_wait_def init_pool_def list_ex_iff)
next
  case (step y z)
  then show ?case using step_ordered by blast
qed

lemma sum_list_all_Done:
  "list_all (\<lambda>w. w = Done) ws \<Longrightarrow> sum_list (map (worker_holds env l) ws) = {#}"
  by (induction ws) auto

text \<open>
  When \<^verbatim>\<open>main\<close> has returned, the result lines on standard output are, up to their
  order, the sites \<^verbatim>\<open>test\<close> left behind for the lines with two fields: one line each.
\<close>

lemma results_at_exit:
  assumes "reachable env l flds n texts p" and "main_at p = Exited"
  shows "mset (results (stdout p)) = mset (map (tested env l) (queued (scan_lines texts)))"
proof -
  have o: "ordered p" using assms(1) by (rule reachable_ordered)
  with assms(2) have "input p = []" "list_all (\<lambda>w. w = Done) (workers p)" "writer_at p = WDone"
    by (simp_all add: ordered_def past_scan_def past_wait_def)
  then have "in_flight env l p = mset (results (stdout p))"
    using assms(2) by (simp add: in_flight_def scan_lines_def sum_list_all_Done)
  then show ?thesis
    using reachable_in_flight [OF assms(1)] by simp
qed

lemma list_all_update:
  "list_all P ws \<Longrightarrow> P w \<Longrightarrow> list_all P (ws[i := w])"
  using set_update_subset_insert [of ws i w] by (auto simp add: list_all_iff)

lemma list_all_nth: "list_all P ws \<Longrightarrow> i < length ws \<Longrightarrow> P (ws ! i)"
  by (simp add: list_all_length)

lemma step_all_stuck:
  assumes "step env l flds p p'" and "all_stuck env l p"
  shows "all_stuck env l p'"
  using assms(1)
proof (cases rule: step.cases)
  case (scan_bad ln rest ln')
  with assms(2) show ?thesis
    by (simp add: all_stuck_def scan_lines_def results_append)
next
  case (scan_good ln rest s)
  with assms(2) show ?thesis
    by (simp add: all_stuck_def scan_lines_def)
next
  case (work_handoff s i)
  with assms(2) show ?thesis
    by (simp add: all_stuck_def list_all_update)
next
  case (test_returns i s s' tr)
  with assms(2) have "worker_stuck env l (Testing s)"
    using list_all_nth [of "worker_stuck env l" "workers p" i] by (simp add: all_stuck_def)
  with test_returns show ?thesis by (simp add: panics_def)
next
  case (test_panics i s s' tr)
  with assms(2) show ?thesis
    by (simp add: all_stuck_def results_append results_dumps)
next
  case (result_handoff i s)
  with assms(2) have "worker_stuck env l (Delivering s)"
    using list_all_nth [of "worker_stuck env l" "workers p" i] by (simp add: all_stuck_def)
  then show ?thesis by simp
next
  case (writer_prints s)
  with assms(2) show ?thesis by (simp add: all_stuck_def)
next
  case close_work
  with assms(2) show ?thesis by (simp add: all_stuck_def)
next
  case (worker_done i)
  with assms(2) show ?thesis by (simp add: all_stuck_def list_all_update)
next
  case close_result
  with assms(2) show ?thesis by (simp add: all_stuck_def)
next
  case writer_done
  with assms(2) show ?thesis by (simp add: all_stuck_def)
next
  case main_returns
  with assms(2) show ?thesis by (simp add: all_stuck_def)
qed

lemma reachable_all_stuck:
  assumes "reachable env l flds n texts p"
    and "list_all (panics env l) (queued (scan_lines texts))"
  shows "all_stuck env l p"
  using assms(1) unfolding reachable_def
proof (induction rule: rtranclp_induct)
  case base
  show ?case using assms(2) by (simp add: all_stuck_def init_pool_def list_all_iff)
next
  case (step y z)
  then show ?case using step_all_stuck by blast
qed

lemma crash_means_no_results:
  assumes "reachable env l flds n texts p"
    and "list_all (panics env l) (queued (scan_lines texts))"
    and "queued (scan_lines texts) \<noteq> []"
  shows "main_at p \<noteq> Exited \<and> results (stdout p) = []"
proof -
  have r: "results (stdout p) = []"
    using reachable_all_stuck [OF assms(1,2)] by (simp add: all_stuck_def)
  have "main_at p \<noteq> Exited"
  proof
    assume "main_at p = Exited"
    from results_at_exit [OF assms(1) this] r assms(3) show False by simp
  qed
  with r show ?thesis by simp
qed

subsection \<open>Every run ends\<close>

lemma step_fuel:
  assumes "step env l flds p p'"
  shows "fuel p' < fuel p"
  using assms
proof (cases rule: step.cases)
  case (scan_bad ln rest ln')
  then show ?thesis by (simp add: fuel_def)
next
  case (scan_good ln rest s)
  then show ?thesis by (simp add: fuel_def)
next
  case (work_handoff s i)
  then show ?thesis
    using sum_list_map_update [of i "workers p" worker_fuel "Testing s"]
    by (simp add: fuel_def)
next
  case (test_returns i s s' tr)
  then show ?thesis
    using sum_list_map_update [of i "workers p" worker_fuel "Delivering s'"]
    by (simp add: fuel_def)
next
  case (test_panics i s s' tr)
  then show ?thesis by (simp add: fuel_def)
next
  case (result_handoff i s)
  then show ?thesis
    using sum_list_map_update [of i "workers p" worker_fuel "Receiving"]
    by (simp add: fuel_def)
next
  case (writer_prints s)
  then show ?thesis by (simp add: fuel_def)
next
  case close_work
  then show ?thesis by (simp add: fuel_def)
next
  case (worker_done i)
  then show ?thesis
    using sum_list_map_update [of i "workers p" worker_fuel "Done"]
    by (simp add: fuel_def)
next
  case close_result
  then show ?thesis by (simp add: fuel_def)
next
  case writer_done
  then show ?thesis by (simp add: fuel_def)
next
  case main_returns
  then show ?thesis by (simp add: fuel_def)
qed

lemma step_terminates: "wf {(p', p). step env l flds p p'}"
proof -
  have "{(p', p). step env l flds p p'} \<subseteq> measure fuel"
    using step_fuel by auto
  then show ?thesis
    by (rule wf_subset [OF wf_measure])
qed

subsection \<open>No run gets stuck\<close>

lemma step_length_workers:
  assumes "step env l flds p p'"
  shows "length (workers p') = length (workers p)"
  using assms by (cases rule: step.cases) simp_all

lemma reachable_length_workers:
  assumes "reachable env l flds n texts p"
  shows "length (workers p) = n"
  using assms unfolding reachable_def
proof (induction rule: rtranclp_induct)
  case base
  show ?case by (simp add: init_pool_def)
next
  case (step y z)
  then show ?case using step_length_workers by simp
qed

lemma tester_moves:
  assumes "\<not> crashed p" and "i < length (workers p)" and "workers p ! i = Testing s"
  shows "\<exists>p'. step env l flds p p'"
proof -
  obtain out s' tr where t: "test env l s [] = (out, s', tr)"
    by (metis prod_cases3)
  show ?thesis
  proof (cases out)
    case Returned
    with assms t show ?thesis by (blast intro: step.test_returns)
  next
    case Panicked
    with assms t show ?thesis by (blast intro: step.test_panics)
  qed
qed

lemma deliverer_moves:
  assumes "\<not> crashed p" and "i < length (workers p)" and "workers p ! i = Delivering s"
    and "writer_at p \<noteq> WDone"
  shows "\<exists>p'. step env l flds p p'"
proof (cases "writer_at p")
  case WReceiving
  with assms show ?thesis by (blast intro: step.result_handoff)
next
  case (WPrinting s')
  with assms show ?thesis by (blast intro: step.writer_prints)
next
  case WDone
  with assms show ?thesis by simp
qed

lemma worker_moves:
  assumes "\<not> crashed p" and "i < length (workers p)"
    and "workers p ! i \<noteq> Receiving" and "workers p ! i \<noteq> Done"
    and "writer_at p \<noteq> WDone"
  shows "\<exists>p'. step env l flds p p'"
proof (cases "workers p ! i")
  case (Testing s)
  with assms show ?thesis by (blast intro: tester_moves)
next
  case (Delivering s)
  with assms show ?thesis by (blast intro: deliverer_moves)
qed (use assms in simp_all)

lemma not_list_ex_nth: "\<not> list_ex P ws \<Longrightarrow> i < length ws \<Longrightarrow> \<not> P (ws ! i)"
  by (auto simp add: list_ex_iff)

lemma pool_progress:
  assumes r: "reachable env l flds n texts p" and n: "0 < n"
    and c: "\<not> crashed p" and e: "main_at p \<noteq> Exited"
  shows "\<exists>p'. step env l flds p p'"
proof -
  have o: "ordered p" using r by (rule reachable_ordered)
  have len: "length (workers p) = n" using r by (rule reachable_length_workers)
  show ?thesis
  proof (cases "main_at p")
    case Scanning
    show ?thesis
    proof (cases "input p")
      case Nil
      with c Scanning show ?thesis by (blast intro: step.close_work)
    next
      case (Cons ln rest)
      show ?thesis
      proof (cases "scan_line ln")
        case (Report ln')
        with c Scanning Cons show ?thesis by (blast intro: step.scan_bad)
      next
        case (Enqueue s)
        with c Scanning Cons show ?thesis by (blast intro: step.scan_good)
      qed
    qed
  next
    case (Offering s)
    from o Offering have nd: "\<not> list_ex (\<lambda>w. w = Done) (workers p)" and w: "writer_at p \<noteq> WDone"
      by (auto simp add: ordered_def past_scan_def past_wait_def split: if_splits)
    show ?thesis
    proof (cases "workers p ! 0 = Receiving")
      case True
      with c Offering len n show ?thesis by (blast intro: step.work_handoff)
    next
      case False
      moreover have "workers p ! 0 \<noteq> Done"
        using not_list_ex_nth [OF nd, of 0] len n by simp
      ultimately show ?thesis
        using worker_moves [OF c _ _ _ w, of 0] len n by simp
    qed
  next
    case Waiting
    from o Waiting have w: "writer_at p \<noteq> WDone"
      by (auto simp add: ordered_def past_scan_def past_wait_def split: if_splits)
    show ?thesis
    proof (cases "list_all (\<lambda>w. w = Done) (workers p)")
      case True
      with c Waiting show ?thesis by (blast intro: step.close_result)
    next
      case False
      then obtain i where i: "i < length (workers p)" "workers p ! i \<noteq> Done"
        by (auto simp add: list_all_length)
      show ?thesis
      proof (cases "workers p ! i = Receiving")
        case True
        with c Waiting i show ?thesis by (blast intro: step.worker_done)
      next
        case False
        with worker_moves [OF c i(1) _ i(2) w] show ?thesis by simp
      qed
    qed
  next
    case Stopping
    show ?thesis
    proof (cases "writer_at p")
      case WReceiving
      with c Stopping show ?thesis by (blast intro: step.writer_done)
    next
      case (WPrinting s)
      with c show ?thesis by (blast intro: step.writer_prints)
    next
      case WDone
      with c Stopping show ?thesis by (blast intro: step.main_returns)
    qed
  next
    case Exited
    with e show ?thesis by simp
  qed
qed

subsection \<open>No crash without a panic\<close>

lemma step_all_safe:
  assumes "step env l flds p p'" and "all_safe env l p"
  shows "all_safe env l p'"
  using assms(1)
proof (cases rule: step.cases)
  case (scan_bad ln rest ln')
  with assms(2) show ?thesis by (simp add: all_safe_def scan_lines_def)
next
  case (scan_good ln rest s)
  with assms(2) show ?thesis by (simp add: all_safe_def scan_lines_def)
next
  case (work_handoff s i)
  with assms(2) show ?thesis by (simp add: all_safe_def list_all_update)
next
  case (test_returns i s s' tr)
  with assms(2) show ?thesis by (simp add: all_safe_def list_all_update)
next
  case (test_panics i s s' tr)
  with assms(2) have "worker_safe env l (Testing s)"
    using list_all_nth [of "worker_safe env l" "workers p" i] by (simp add: all_safe_def)
  with test_panics show ?thesis by (simp add: panics_def)
next
  case (result_handoff i s)
  with assms(2) show ?thesis by (simp add: all_safe_def list_all_update)
next
  case (writer_prints s)
  with assms(2) show ?thesis by (simp add: all_safe_def)
next
  case close_work
  with assms(2) show ?thesis by (simp add: all_safe_def)
next
  case (worker_done i)
  with assms(2) show ?thesis by (simp add: all_safe_def list_all_update)
next
  case close_result
  with assms(2) show ?thesis by (simp add: all_safe_def)
next
  case writer_done
  with assms(2) show ?thesis by (simp add: all_safe_def)
next
  case main_returns
  with assms(2) show ?thesis by (simp add: all_safe_def)
qed

lemma reachable_all_safe:
  assumes "reachable env l flds n texts p"
    and "list_all (\<lambda>s. \<not> panics env l s) (queued (scan_lines texts))"
  shows "all_safe env l p"
  using assms(1) unfolding reachable_def
proof (induction rule: rtranclp_induct)
  case base
  show ?case using assms(2) by (simp add: all_safe_def init_pool_def list_all_iff)
next
  case (step y z)
  then show ?case using step_all_safe by blast
qed

text \<open>
  With at least one worker, and when \<^verbatim>\<open>test\<close> panics on none of the sites of the
  input, every run, continued to its end, ends with \<^verbatim>\<open>main\<close> returned, and then the
  result lines on standard output are one for each line with two fields.
\<close>

lemma run_to_exit:
  assumes n: "0 < n"
    and safe: "list_all (\<lambda>s. \<not> panics env l s) (queued (scan_lines texts))"
    and r: "reachable env l flds n texts p"
  shows "\<exists>q. (step env l flds)\<^sup>*\<^sup>* p q \<and> main_at q = Exited
             \<and> mset (results (stdout q)) = mset (map (tested env l) (queued (scan_lines texts)))"
  using r
proof (induction p rule: wf_induct_rule [OF step_terminates [of env l flds]])
  case (1 p)
  show ?case
  proof (cases "main_at p = Exited")
    case True
    with results_at_exit [OF "1.prems" True] show ?thesis by blast
  next
    case False
    have "\<not> crashed p"
      using reachable_all_safe [OF "1.prems" safe] by (simp add: all_safe_def)
    from pool_progress [OF "1.prems" n this False] obtain p' where s: "step env l flds p p'"
      by blast
    then have "reachable env l flds n texts p'"
      using "1.prems" by (simp add: reachable_def)
    from "1.IH" [of p'] s this obtain q where
      "(step env l flds)\<^sup>*\<^sup>* p' q" "main_at q = Exited"
      "mset (results (stdout q)) = mset (map (tested env l) (queued (scan_lines texts)))"
      by blast
    with s show ?thesis
      by (blast intro: converse_rtranclp_into_rtranclp)
  qed
qed

subsection \<open>Malformed lines\<close>

lemma step_from_bad_line:
  assumes "\<not> crashed p" and "main_at p = Scanning" and "input p = ln # rest"
    and "scan_line ln = Report ln" and "step env l flds p p'"
  shows "(input p' = input p \<and> main_at p' = main_at p)
         \<or> p' = p\<lparr>input := rest, stdout := stdout p @ [BadLineOut ln]\<rparr>"
  using assms(5)
proof (cases rule: step.cases)
  case (scan_bad ln2 rest2 ln')
  with assms show ?thesis by simp
next
  case (scan_good ln2 rest2 s)
  with assms show ?thesis by simp
qed (use assms in simp_all)

text \<open>
  C8. A line that does not split into exactly two fields is reported as it stands and
  skipped: the loop of \<^verbatim>\<open>main\<close> queues nothing for it, and handles the lines before
  and after it as it would without it. In the running program, with \<^verbatim>\<open>main\<close> in its
  scan loop at such a line, \<^verbatim>\<open>main\<close> can print \<^verbatim>\<open>Bad line: <text>\<close> and go on to the
  rest of the input, which adds no result line and is no crash; and every step from
  that state is either this one or a step of another goroutine.
\<close>

theorem bad_line_reported_and_skipped:
  assumes "length (Split ln (CHR '','')) \<noteq> 2"
  shows "scan_line ln = Report ln
    \<and> scan_lines (before @ ln # after) = scan_lines before @ Report ln # scan_lines after
    \<and> queued (scan_lines (before @ ln # after))
        = queued (scan_lines before) @ queued (scan_lines after)
    \<and> reported (scan_lines (before @ ln # after))
        = reported (scan_lines before) @ ln # reported (scan_lines after)
    \<and> (\<forall>p rest.
          \<not> crashed p \<and> main_at p = Scanning \<and> input p = ln # rest \<longrightarrow>
            step env l flds p (p\<lparr>input := rest, stdout := stdout p @ [BadLineOut ln]\<rparr>)
            \<and> results (stdout p @ [BadLineOut ln]) = results (stdout p)
            \<and> (\<forall>p'. step env l flds p p' \<longrightarrow>
                  (input p' = input p \<and> main_at p' = main_at p)
                  \<or> p' = p\<lparr>input := rest, stdout := stdout p @ [BadLineOut ln]\<rparr>))"
proof -
  have r: "scan_line ln = Report ln"
    using assms by (simp add: scan_line_def)
  have s: "scan_lines (before @ ln # after) = scan_lines before @ Report ln # scan_lines after"
    using r by (simp add: scan_lines_def)
  have q: "queued (scan_lines (before @ ln # after))
        = queued (scan_lines before) @ queued (scan_lines after)"
    unfolding s by (simp add: queued_append)
  have t: "reported (scan_lines (before @ ln # after))
        = reported (scan_lines before) @ ln # reported (scan_lines after)"
    unfolding s by (simp add: reported_append)
  have st: "step env l flds p (p\<lparr>input := rest, stdout := stdout p @ [BadLineOut ln]\<rparr>)"
    if "\<not> crashed p" "main_at p = Scanning" "input p = ln # rest" for p rest
    using that r by (rule step.scan_bad)
  have only: "(input p' = input p \<and> main_at p' = main_at p)
                  \<or> p' = p\<lparr>input := rest, stdout := stdout p @ [BadLineOut ln]\<rparr>"
    if "\<not> crashed p" "main_at p = Scanning" "input p = ln # rest" "step env l flds p p'"
    for p rest p'
    using that(1,2,3) r that(4) by (rule step_from_bad_line)
  have res: "results (xs @ [BadLineOut ln]) = results xs" for xs
    by (simp add: results_append)
  show ?thesis
    using r s q t st only res by blast
qed

theorem bad_line_reported_and_skipped_witness:
  "length (Split ''a,b,c'' (CHR '','')) \<noteq> 2
   \<and> scan_lines ([''w,x''] @ ''a,b,c'' # [''y,z''])
       = [Enqueue (new_site ''w'' ''x''), Report ''a,b,c'', Enqueue (new_site ''y'' ''z'')]
   \<and> \<not> crashed (init_pool 1 [''a,b,c'', ''y,z''])
   \<and> main_at (init_pool 1 [''a,b,c'', ''y,z'']) = Scanning
   \<and> input (init_pool 1 [''a,b,c'', ''y,z'']) = ''a,b,c'' # [''y,z'']
   \<and> step stub_env None False (init_pool 1 [''a,b,c'', ''y,z''])
        \<lparr>input = [''y,z''], main_at = Scanning, workers = [Receiving],
         writer_at = WReceiving, first = True, stdout = [BadLineOut ''a,b,c''],
         crashed = False\<rparr>"
proof -
  have a: "length (Split ''a,b,c'' (CHR '','')) \<noteq> 2"
    by simp
  have i: "\<not> crashed (init_pool 1 [''a,b,c'', ''y,z''])"
    "main_at (init_pool 1 [''a,b,c'', ''y,z'']) = Scanning"
    "input (init_pool 1 [''a,b,c'', ''y,z'']) = ''a,b,c'' # [''y,z'']"
    by (simp_all add: init_pool_def)
  have w: "scan_lines [''w,x''] = [Enqueue (new_site ''w'' ''x'')]"
    "scan_lines [''y,z''] = [Enqueue (new_site ''y'' ''z'')]"
    by (simp_all add: scan_lines_def scan_line_def)
  note th = bad_line_reported_and_skipped [OF a, of "[''w,x'']" "[''y,z'']" stub_env None False]
  have s: "scan_lines ([''w,x''] @ ''a,b,c'' # [''y,z''])
       = [Enqueue (new_site ''w'' ''x''), Report ''a,b,c'', Enqueue (new_site ''y'' ''z'')]"
    using th [THEN conjunct2, THEN conjunct1] w by simp
  have "step stub_env None False (init_pool 1 [''a,b,c'', ''y,z''])
          ((init_pool 1 [''a,b,c'', ''y,z''])
             \<lparr>input := [''y,z''],
              stdout := stdout (init_pool 1 [''a,b,c'', ''y,z'']) @ [BadLineOut ''a,b,c'']\<rparr>)"
    using th [THEN conjunct2, THEN conjunct2, THEN conjunct2, THEN conjunct2, rule_format,
        of "init_pool 1 [''a,b,c'', ''y,z'']" "[''y,z'']"] i
    by blast
  then have st: "step stub_env None False (init_pool 1 [''a,b,c'', ''y,z''])
        \<lparr>input = [''y,z''], main_at = Scanning, workers = [Receiving],
         writer_at = WReceiving, first = True, stdout = [BadLineOut ''a,b,c''],
         crashed = False\<rparr>"
    by (simp add: init_pool_def)
  show ?thesis
    using a s i st by simp
qed

subsection \<open>Lines with one comma\<close>

text \<open>
  C10. A line with exactly one comma is sent to the workers as a site whose Host
  header value is the text before the comma and whose origin is the text after it,
  whatever they are: the line \<^verbatim>\<open>,\<close> gives a site with both empty. What becomes of the
  site is up to \<^verbatim>\<open>test\<close>, and \<^verbatim>\<open>test\<close> panics on some of them: for the line
  \<^verbatim>\<open>a.example,%zz\<close> in the stub world, no result line follows.
\<close>

theorem one_comma_line_is_queued_unchecked:
  "scan_line '','' = Enqueue (new_site [] [])
   \<and> scan_line ''a.example,%zz'' = Enqueue (new_site ''a.example'' ''%zz'')
   \<and> queued (scan_lines [''a.example,%zz'']) = [new_site ''a.example'' ''%zz'']
   \<and> test stub_env None (new_site ''a.example'' ''%zz'') [] =
       (Panicked,
        (new_site ''a.example'' ''%zz'')\<lparr>resolves := \<lparr>ran = True, yesno = True\<rparr>\<rparr>,
        [Lookup ''%zz''])"
proof -
  have 1: "resolves_ok stub_env [] ''%zz''"
    by (simp add: resolves_ok_def stub_defs)
  have 2: "fst (NewRequest stub_env ''GET'' (''http://'' @ ''%zz'')) = None"
    by (simp add: NewRequest_def stub_defs)
  have 3: "ParseIP stub_env ''%zz'' = None"
    by (simp add: stub_defs)
  have 4: "scan_line ''a.example,%zz'' = Enqueue (new_site ''a.example'' ''%zz'')"
    by (simp add: scan_line_def)
  show ?thesis
    using probe_without_request [OF 1 2, of None "''a.example''"] 3 4
    by (simp add: probe_def scan_line_def scan_lines_def)
qed

subsection \<open>One result line for each line with two fields\<close>

lemma crash_reachable:
  assumes "scan_line ln = Enqueue s" and "test env l s [] = (Panicked, s', tr)" and "dumps tr = []"
  shows "reachable env l flds (Suc n) [ln] (crash_pool n s)"
proof -
  let ?p0 = "init_pool (Suc n) [ln]"
  let ?p1 = "?p0\<lparr>input := [], main_at := Offering s\<rparr>"
  let ?p2 = "?p1\<lparr>main_at := Scanning, workers := (workers ?p1)[0 := Testing s]\<rparr>"
  let ?p3 = "?p2\<lparr>stdout := stdout ?p2 @ dumps tr, crashed := True\<rparr>"
  have 1: "step env l flds ?p0 ?p1"
    by (rule step.scan_good [where ln=ln]) (simp_all add: init_pool_def assms)
  have 2: "step env l flds ?p1 ?p2"
    by (rule step.work_handoff) (simp_all add: init_pool_def)
  have 3: "step env l flds ?p2 ?p3"
    by (rule step.test_panics [where i=0 and s=s and s'=s']) (simp_all add: init_pool_def assms)
  have e: "?p3 = crash_pool n s"
    by (simp add: crash_pool_def init_pool_def assms)
  have "(step env l flds)\<^sup>*\<^sup>* ?p0 ?p3"
    using 1 2 3 by (meson rtranclp.rtrancl_into_rtrancl rtranclp.rtrancl_refl)
  then show ?thesis
    unfolding reachable_def e .
qed

text \<open>
  C5. Not every line with two fields gets its result line. For the input line
  \<^verbatim>\<open>a.example,::ffff:1.2.3.4\<close> in the stub world, with any positive number of
  workers, the program can reach the state in which the worker that took the site has
  panicked in \<^verbatim>\<open>test\<close>; and in no state the program can reach, with any number of
  workers and in any order of the goroutines' steps, has a result line been printed or
  has \<^verbatim>\<open>main\<close> returned.
\<close>

theorem valid_line_without_result_line:
  "reachable stub_env None flds (Suc n) [''a.example,::ffff:1.2.3.4'']
     (crash_pool n (new_site ''a.example'' ''::ffff:1.2.3.4''))
   \<and> (\<forall>m p. reachable stub_env None flds m [''a.example,::ffff:1.2.3.4''] p \<longrightarrow>
          main_at p \<noteq> Exited \<and> results (stdout p) = [])"
proof -
  let ?s = "new_site ''a.example'' ''::ffff:1.2.3.4''"
  have 1: "resolves_ok stub_env [] ''::ffff:1.2.3.4''"
    by (simp add: resolves_ok_def stub_defs)
  have 2: "fst (NewRequest stub_env ''GET'' (''http://'' @ ''::ffff:1.2.3.4'')) = None"
    by (simp add: NewRequest_def stub_defs)
  have 3: "ParseIP stub_env ''::ffff:1.2.3.4'' \<noteq> None"
    by (simp add: stub_defs)
  have t: "test stub_env None ?s [] =
             (Panicked, ?s\<lparr>resolves := \<lparr>ran = True, yesno = True\<rparr>\<rparr>, [])"
    using probe_without_request [OF 1 2, of None "''a.example''"] 3
    by (simp add: probe_def)
  have q: "scan_line ''a.example,::ffff:1.2.3.4'' = Enqueue ?s"
    by (simp add: scan_line_def)
  have a: "reachable stub_env None flds (Suc n) [''a.example,::ffff:1.2.3.4''] (crash_pool n ?s)"
    by (rule crash_reachable [OF q t]) simp
  have ql: "queued (scan_lines [''a.example,::ffff:1.2.3.4'']) = [?s]"
    using q by (simp add: scan_lines_def)
  have b: "main_at p \<noteq> Exited \<and> results (stdout p) = []"
    if "reachable stub_env None flds m [''a.example,::ffff:1.2.3.4''] p" for m p
    by (rule crash_means_no_results [OF that]) (simp_all add: ql panics_def t)
  show ?thesis
    using a b by blast
qed

theorem valid_line_without_result_line_witness:
  "reachable stub_env None False 1 [''a.example,::ffff:1.2.3.4'']
     (crash_pool 0 (new_site ''a.example'' ''::ffff:1.2.3.4''))
   \<and> crashed (crash_pool 0 (new_site ''a.example'' ''::ffff:1.2.3.4''))
   \<and> main_at (crash_pool 0 (new_site ''a.example'' ''::ffff:1.2.3.4'')) \<noteq> Exited
   \<and> results (stdout (crash_pool 0 (new_site ''a.example'' ''::ffff:1.2.3.4''))) = []"
proof -
  note th = valid_line_without_result_line [of False 0]
  have r: "reachable stub_env None False 1 [''a.example,::ffff:1.2.3.4'']
     (crash_pool 0 (new_site ''a.example'' ''::ffff:1.2.3.4''))"
    using th [THEN conjunct1] by simp
  from th [THEN conjunct2, rule_format, OF r] r show ?thesis
    by (simp add: crash_pool_def)
qed

end
